theory Spec2Isabelle
  imports Main
begin

section \<open>JavaScript values used by the migration script\<close>

text \<open>
  The script \<^verbatim>\<open>scripts/migrate-workos.ts\<close> is embedded function by function.
  A JavaScript string is a sequence of UTF-16 code units; here it is a \<^typ>\<open>string\<close>,
  one \<^typ>\<open>char\<close> per code unit, so the strings of the model are those whose code
  units lie below 256. A thrown value is an \<open>exn\<close>; a call that may throw returns
  \<open>exn + 'a\<close> with \<open>Inl\<close> for the thrown value.
  Left out of the embedding: the check of the environment variables at load time
  (lines 86-88), the resolution of \<^verbatim>\<open>auth.$context\<close>, and everything written to the console.
\<close>

datatype exn = TypeError | Rejected string

type_synonym 'a result = "exn + 'a"

text \<open>A JavaScript number, as far as timestamps need it: an integral value or NaN.\<close>

datatype js_number = Num int | NaN

text \<open>The parameter type of \<^verbatim>\<open>safeDateConversion\<close>: \<^verbatim>\<open>string | number | null | undefined\<close>.\<close>

datatype date_arg = DString string | DNumber js_number | DNull | DUndefined

text \<open>A \<^verbatim>\<open>Date\<close> object: its time value in milliseconds since the epoch, or an invalid date.\<close>

datatype js_date = Date int | InvalidDate

text \<open>\<^verbatim>\<open>!date\<close>: the falsy values are the empty string, 0, NaN, null and undefined.\<close>

fun falsy :: "date_arg \<Rightarrow> bool" where
  "falsy (DString s) = (s = [])"
| "falsy (DNumber (Num n)) = (n = 0)"
| "falsy (DNumber NaN) = True"
| "falsy DNull = True"
| "falsy DUndefined = True"

text \<open>\<^verbatim>\<open>x || d\<close> for \<^verbatim>\<open>x : string | null | undefined\<close>.\<close>

fun or_else :: "string option \<Rightarrow> string \<Rightarrow> string" where
  "or_else None d = d"
| "or_else (Some s) d = (if s = [] then d else s)"

text \<open>\<^verbatim>\<open>x || undefined\<close> for \<^verbatim>\<open>x : string | null | undefined\<close>.\<close>

fun or_undefined :: "string option \<Rightarrow> string option" where
  "or_undefined None = None"
| "or_undefined (Some s) = (if s = [] then None else Some s)"

subsection \<open>String primitives\<close>

definition code_unit :: "char \<Rightarrow> nat" where
  "code_unit c = of_char c"

text \<open>
  \<^verbatim>\<open>String.prototype.toLowerCase\<close> on code units below 256: the letters A-Z and the
  Latin-1 capitals U+00C0 to U+00DE (the multiplication sign U+00D7 apart) move up by 32.
\<close>

definition lower_char :: "char \<Rightarrow> char" where
  "lower_char c =
     (let n = code_unit c
      in if (65 \<le> n \<and> n \<le> 90) \<or> (192 \<le> n \<and> n \<le> 222 \<and> n \<noteq> 215)
         then char_of (n + 32) else c)"

definition toLowerCase :: "string \<Rightarrow> string" where
  "toLowerCase s = map lower_char s"

text \<open>The character class \<^verbatim>\<open>[a-z0-9]\<close>.\<close>

definition lower_alnum :: "char \<Rightarrow> bool" where
  "lower_alnum c =
     (let n = code_unit c in (97 \<le> n \<and> n \<le> 122) \<or> (48 \<le> n \<and> n \<le> 57))"

text \<open>
  \<^verbatim>\<open>s.replace(/[^...]/g, repl)\<close> for a negated one-character class: every code unit
  outside the class is a match and is replaced by the replacement string.
\<close>

fun replace_outside :: "(char \<Rightarrow> bool) \<Rightarrow> string \<Rightarrow> string \<Rightarrow> string" where
  "replace_outside cls repl [] = []"
| "replace_outside cls repl (c # cs) =
     (if cls c then [c] else repl) @ replace_outside cls repl cs"

text \<open>\<^verbatim>\<open>org.name.toLowerCase().replace(/[^a-z0-9]/g, '-')\<close> (line 142).\<close>

definition slug_of_name :: "string \<Rightarrow> string" where
  "slug_of_name name = replace_outside lower_alnum ''-'' (toLowerCase name)"

text \<open>\<^verbatim>\<open>s.split(sep)\<close> for a separator of one code unit.\<close>

fun split_char :: "char \<Rightarrow> string \<Rightarrow> string list" where
  "split_char sep [] = [[]]"
| "split_char sep (c # cs) =
     (if c = sep then [] # split_char sep cs
      else (case split_char sep cs of
              [] \<Rightarrow> [[c]]
            | w # ws \<Rightarrow> (c # w) # ws))"

text \<open>\<^verbatim>\<open>xs[0]\<close>: \<^verbatim>\<open>undefined\<close> on an empty array.\<close>

fun first_elem :: "'a list \<Rightarrow> 'a option" where
  "first_elem [] = None"
| "first_elem (x # xs) = Some x"

text \<open>
  \<^verbatim>\<open>String.prototype.trim\<close> on code units below 256: tab, line feed, vertical tab,
  form feed, carriage return, space and the no-break space are white space.
\<close>

definition white_space :: "char \<Rightarrow> bool" where
  "white_space c = (code_unit c \<in> {9, 10, 11, 12, 13, 32, 160})"

definition trim :: "string \<Rightarrow> string" where
  "trim s = rev (dropWhile white_space (rev (dropWhile white_space s)))"

text \<open>\<^verbatim>\<open>xs.find(p)\<close> and \<^verbatim>\<open>xs.some(p)\<close>.\<close>

fun find_first :: "('a \<Rightarrow> bool) \<Rightarrow> 'a list \<Rightarrow> 'a option" where
  "find_first p [] = None"
| "find_first p (x # xs) = (if p x then Some x else find_first p xs)"

fun some :: "('a \<Rightarrow> bool) \<Rightarrow> 'a list \<Rightarrow> bool" where
  "some p [] = False"
| "some p (x # xs) = (if p x then True else some p xs)"

section \<open>Records of the source provider\<close>

text \<open>
  The responses are cast to \<^verbatim>\<open>any\<close>; the fields are typed as the interfaces at the top
  of the script declare them, and a field the script tests before use is an option.
  Time stamps have the parameter type of \<^verbatim>\<open>safeDateConversion\<close>.
\<close>

record list_metadata =
  before :: "string option"
  after :: "string option"

record 'a list_response =
  data :: "'a list"
  listMetadata :: "list_metadata option"

record organization =
  org_id :: string
  org_name :: string
  org_createdAt :: date_arg
  org_updatedAt :: date_arg

record workos_user =
  user_id :: string
  email :: string
  emailVerified :: bool
  firstName :: "string option"
  lastName :: "string option"
  profilePictureUrl :: "string option"
  user_createdAt :: date_arg
  user_updatedAt :: date_arg

record totp_configuration =
  qr_code :: string
  secret :: string

record sms_configuration =
  phoneNumber :: string

record email_configuration =
  ec_email :: string
  hashedPassword :: "string option"

record auth_factor =
  factor_id :: string
  factor_type :: string
  factor_createdAt :: date_arg
  factor_updatedAt :: date_arg
  totp_config :: "totp_configuration option"
  sms_config :: "sms_configuration option"
  email_config :: "email_configuration option"

record connection =
  conn_id :: string
  conn_type :: string
  conn_createdAt :: date_arg
  conn_updatedAt :: date_arg

record membership_role =
  role_slug :: "string option"

record membership =
  organizationId :: string
  role :: "membership_role option"
  mem_createdAt :: date_arg
  mem_updatedAt :: date_arg

record memberships_response =
  memberships :: "membership list option"

section \<open>Records written through the destination adapter\<close>

record organization_data =
  dorg_id :: string
  dorg_name :: string
  dorg_slug :: string
  dorg_createdAt :: js_date
  dorg_updatedAt :: js_date

record user_data =
  duser_id :: string
  duser_email :: string
  duser_emailVerified :: bool
  duser_name :: string
  duser_image :: "string option"
  duser_createdAt :: js_date
  duser_updatedAt :: js_date
  duser_role :: string
  duser_banned :: bool
  duser_twoFactorEnabled :: bool
  duser_username :: "string option"
  duser_phoneNumber :: "string option"
  duser_phoneNumberVerified :: bool

record account_data =
  acct_userId :: string
  acct_type :: string
  acct_provider :: string
  acct_providerAccountId :: string
  acct_password :: "string option"
  acct_createdAt :: js_date
  acct_updatedAt :: js_date

record member_data =
  member_userId :: string
  member_organizationId :: string
  member_role :: string
  member_createdAt :: js_date
  member_updatedAt :: js_date

record twoFactor_data =
  tf_userId :: string
  tf_secret :: string
  tf_backupCodes :: string

datatype create_data =
    OrganizationData organization_data
  | UserData user_data
  | AccountData account_data
  | MemberData member_data
  | TwoFactorData twoFactor_data

text \<open>The argument of \<^verbatim>\<open>ctx.adapter.create\<close>, and the row it returns (only its id is read).\<close>

record create_request =
  model :: string
  payload :: create_data
  forceAllowId :: bool

record created =
  created_id :: string

section \<open>The outside world\<close>

text \<open>
  The source provider's API, the destination adapter, the random generator, the cipher
  and the clock are not part of the script. They are parameters: each call takes the state
  of the world and returns its result with the new state, so a call may answer differently
  each time. The run keeps a trace of the calls to the API and to the adapter, with their
  results, in the order in which they were made.
\<close>

datatype event =
    ListOrganizations nat "string option" "organization list_response result"
  | ListUsers nat "string option" "workos_user list_response result"
  | ListAuthFactors string "auth_factor list_response result"
  | GetConnection string "connection option result"
  | ListOrganizationMemberships string "memberships_response result"
  | GetOrganization string "organization result"
  | Create create_request "created result"

record 'w env =
  listOrganizations :: "nat \<Rightarrow> string option \<Rightarrow> 'w \<Rightarrow> organization list_response result \<times> 'w"
  listUsers :: "nat \<Rightarrow> string option \<Rightarrow> 'w \<Rightarrow> workos_user list_response result \<times> 'w"
  listAuthFactors :: "string \<Rightarrow> 'w \<Rightarrow> auth_factor list_response result \<times> 'w"
  getConnection :: "string \<Rightarrow> 'w \<Rightarrow> connection option result \<times> 'w"
  listOrganizationMemberships :: "string \<Rightarrow> 'w \<Rightarrow> memberships_response result \<times> 'w"
  getOrganization :: "string \<Rightarrow> 'w \<Rightarrow> organization result \<times> 'w"
  adapter_create :: "create_request \<Rightarrow> 'w \<Rightarrow> created result \<times> 'w"
  generateRandomString :: "nat \<Rightarrow> string list \<Rightarrow> 'w \<Rightarrow> string \<times> 'w"
  symmetricEncrypt :: "string \<Rightarrow> string \<Rightarrow> 'w \<Rightarrow> string result \<times> 'w"
  json_stringify :: "string list \<Rightarrow> string"
  date_now :: "'w \<Rightarrow> int"
  date_parse :: "string \<Rightarrow> js_date"

record 'w rt =
  world :: 'w
  trace :: "event list"

type_synonym ('w, 'a) io = "'w rt \<Rightarrow> 'a result \<times> 'w rt"

text \<open>Sequencing of calls that may throw, and \<^verbatim>\<open>try { ... } catch { ... }\<close>.\<close>

definition return :: "'a \<Rightarrow> ('w, 'a) io" where
  "return x rt = (Inr x, rt)"

definition throw :: "exn \<Rightarrow> ('w, 'a) io" where
  "throw e rt = (Inl e, rt)"

definition bind :: "('w, 'a) io \<Rightarrow> ('a \<Rightarrow> ('w, 'b) io) \<Rightarrow> ('w, 'b) io" where
  "bind m f rt = (case m rt of (Inl e, rt') \<Rightarrow> (Inl e, rt') | (Inr x, rt') \<Rightarrow> f x rt')"

definition try_catch :: "('w, 'a) io \<Rightarrow> (exn \<Rightarrow> ('w, 'a) io) \<Rightarrow> ('w, 'a) io" where
  "try_catch m h rt = (case m rt of (Inl e, rt') \<Rightarrow> h e rt' | (Inr x, rt') \<Rightarrow> (Inr x, rt'))"

text \<open>A call to the outside: the world moves on and the call is recorded.\<close>

definition call :: "('w \<Rightarrow> 'a result \<times> 'w) \<Rightarrow> ('a result \<Rightarrow> event) \<Rightarrow> ('w, 'a) io" where
  "call f ev rt =
     (case f (world rt) of
        (r, w') \<Rightarrow> (r, \<lparr>world = w', trace = trace rt @ [ev r]\<rparr>))"

text \<open>A call to a library function that is not recorded: only the world moves on.\<close>

definition call_quiet :: "('w \<Rightarrow> 'a result \<times> 'w) \<Rightarrow> ('w, 'a) io" where
  "call_quiet f rt = (case f (world rt) of (r, w') \<Rightarrow> (r, rt\<lparr>world := w'\<rparr>))"

text \<open>\<^verbatim>\<open>for (const x of xs) { ... }\<close> with a body that may throw: the first throw ends the loop.\<close>

fun for_each :: "('a \<Rightarrow> ('w, unit) io) \<Rightarrow> 'a list \<Rightarrow> ('w, unit) io" where
  "for_each f [] = return ()"
| "for_each f (x # xs) = bind (f x) (\<lambda>_. for_each f xs)"

section \<open>Helpers of the script\<close>

text \<open>
  \<^verbatim>\<open>new Date(x)\<close>: a number is a time value when it lies within 8.64e15 milliseconds of the
  epoch, a string goes through the date parser, \<^verbatim>\<open>null\<close> converts to 0.
\<close>

fun new_Date :: "'w env \<Rightarrow> date_arg \<Rightarrow> js_date" where
  "new_Date env (DString s) = date_parse env s"
| "new_Date env (DNumber (Num n)) =
     (if \<bar>n\<bar> \<le> 8640000000000000 then Date n else InvalidDate)"
| "new_Date env (DNumber NaN) = InvalidDate"
| "new_Date env DNull = Date 0"
| "new_Date env DUndefined = InvalidDate"

text \<open>
  Lines 92-95:
  \<^verbatim>\<open>if (!date) return new Date(); return new Date(date);\<close>
  \<^verbatim>\<open>new Date()\<close> reads the clock of the world.
\<close>

definition safeDateConversion :: "'w env \<Rightarrow> 'w \<Rightarrow> date_arg \<Rightarrow> js_date" where
  "safeDateConversion env w date =
     (if falsy date then Date (date_now env w) else new_Date env date)"

text \<open>
  Lines 98-109, \<^verbatim>\<open>generateBackupCodes\<close>. The array of length 10 is mapped through the
  random generator, one call after the other, then through the template
  \<^verbatim>\<open>`${code.slice(0, 5)}-${code.slice(5)}`\<close>.
\<close>

fun random_codes :: "'w env \<Rightarrow> nat \<Rightarrow> 'w \<Rightarrow> string list \<times> 'w" where
  "random_codes env 0 w = ([], w)"
| "random_codes env (Suc n) w =
     (case generateRandomString env 10 [''a-z'', ''0-9'', ''A-Z''] w of
        (code, w') \<Rightarrow>
          (case random_codes env n w' of (codes, w'') \<Rightarrow> (code # codes, w'')))"

definition format_code :: "string \<Rightarrow> string" where
  "format_code code = take 5 code @ ''-'' @ drop 5 code"

definition backupCodes :: "'w env \<Rightarrow> 'w \<Rightarrow> string list \<times> 'w" where
  "backupCodes env w =
     (case random_codes env 10 w of (codes, w') \<Rightarrow> (map format_code codes, w'))"

definition generateBackupCodes :: "'w env \<Rightarrow> string \<Rightarrow> ('w, string) io" where
  "generateBackupCodes env key rt =
     (case backupCodes env (world rt) of
        (codes, w') \<Rightarrow>
          call_quiet (symmetricEncrypt env (json_stringify env codes) key)
            (rt\<lparr>world := w'\<rparr>))"

text \<open>\<^verbatim>\<open>await ctx.adapter.create(request)\<close>; the request may read the clock.\<close>

definition adapter_call :: "'w env \<Rightarrow> ('w \<Rightarrow> create_request) \<Rightarrow> ('w, created) io" where
  "adapter_call env request rt =
     (let req = request (world rt) in call (adapter_create env req) (Create req) rt)"

text \<open>\<^verbatim>\<open>const limit = 100\<close> (lines 119 and 179).\<close>

definition limit :: nat where
  "limit = 100"

text \<open>\<^verbatim>\<open>response.listMetadata?.before || undefined\<close> (lines 129 and 192).\<close>

definition next_before :: "'a list_response \<Rightarrow> string option" where
  "next_before response =
     (case listMetadata response of
        None \<Rightarrow> None
      | Some m \<Rightarrow> or_undefined (before m))"

text \<open>
  \<^verbatim>\<open>while (c) { ... }\<close>: the loop may run forever, so it runs on fuel and \<open>None\<close> means
  that the fuel did not suffice. \<open>iterations n\<close> is the state after at most \<open>n\<close> rounds.
\<close>

fun while_fuel :: "nat \<Rightarrow> ('s \<Rightarrow> bool) \<Rightarrow> ('s \<Rightarrow> 's) \<Rightarrow> 's \<Rightarrow> 's option" where
  "while_fuel 0 b c s = (if b s then None else Some s)"
| "while_fuel (Suc n) b c s = (if b s then while_fuel n b c (c s) else Some s)"

fun iterations :: "nat \<Rightarrow> ('s \<Rightarrow> bool) \<Rightarrow> ('s \<Rightarrow> 's) \<Rightarrow> 's \<Rightarrow> 's" where
  "iterations 0 b c s = s"
| "iterations (Suc n) b c s = (if b s then iterations n b c (c s) else s)"

section \<open>The organization phase: \<^verbatim>\<open>migrateOrganizations\<close>\<close>

text \<open>
  The local variables of lines 112-119. \<open>o_broke\<close> records that the \<^verbatim>\<open>break\<close> of line 159
  was taken.
\<close>

record 'w org_state =
  totalOrgs :: nat
  migratedOrgs :: nat
  failedOrgs :: nat
  orgMap :: "string \<rightharpoonup> string"
  hasMoreOrgs :: bool
  o_before :: "string option"
  o_broke :: bool
  o_rt :: "'w rt"

text \<open>The request of lines 137-147.\<close>

definition organization_request :: "'w env \<Rightarrow> organization \<Rightarrow> 'w \<Rightarrow> create_request" where
  "organization_request env org w =
     \<lparr>model = ''organization'',
      payload = OrganizationData
        \<lparr>dorg_id = org_id org,
         dorg_name = org_name org,
         dorg_slug = slug_of_name (org_name org),
         dorg_createdAt = safeDateConversion env w (org_createdAt org),
         dorg_updatedAt = safeDateConversion env w (org_updatedAt org)\<rparr>,
      forceAllowId = True\<rparr>"

text \<open>Lines 134-155: one organization, inside its own \<^verbatim>\<open>try\<close>.\<close>

definition org_step :: "'w env \<Rightarrow> organization \<Rightarrow> 'w org_state \<Rightarrow> 'w org_state" where
  "org_step env org st =
     (case adapter_call env (organization_request env org) (o_rt st) of
        (Inr createdOrg, rt') \<Rightarrow>
          st\<lparr>orgMap := (orgMap st)(org_id org \<mapsto> created_id createdOrg),
             migratedOrgs := migratedOrgs st + 1,
             o_rt := rt'\<rparr>
      | (Inl error, rt') \<Rightarrow>
          st\<lparr>failedOrgs := failedOrgs st + 1, o_rt := rt'\<rparr>)"

text \<open>Lines 122-160: one round of the \<^verbatim>\<open>while\<close> loop.\<close>

definition org_body :: "'w env \<Rightarrow> 'w org_state \<Rightarrow> 'w org_state" where
  "org_body env st =
     (case call (listOrganizations env limit (o_before st))
             (ListOrganizations limit (o_before st)) (o_rt st) of
        (Inl error, rt') \<Rightarrow> st\<lparr>o_broke := True, o_rt := rt'\<rparr>
      | (Inr response, rt') \<Rightarrow>
          fold (org_step env) (data response)
            (st\<lparr>o_before := next_before response,
                hasMoreOrgs := (length (data response) = limit),
                totalOrgs := totalOrgs st + length (data response),
                o_rt := rt'\<rparr>))"

definition org_running :: "'w org_state \<Rightarrow> bool" where
  "org_running st = (hasMoreOrgs st \<and> \<not> o_broke st)"

definition org_init :: "'w rt \<Rightarrow> 'w org_state" where
  "org_init rt =
     \<lparr>totalOrgs = 0, migratedOrgs = 0, failedOrgs = 0, orgMap = Map.empty,
      hasMoreOrgs = True, o_before = None, o_broke = False, o_rt = rt\<rparr>"

definition org_loop :: "nat \<Rightarrow> 'w env \<Rightarrow> 'w rt \<Rightarrow> 'w org_state option" where
  "org_loop fuel env rt = while_fuel fuel org_running (org_body env) (org_init rt)"

definition migrateOrganizations ::
    "nat \<Rightarrow> 'w env \<Rightarrow> 'w rt \<Rightarrow> ((string \<rightharpoonup> string) \<times> 'w rt) option" where
  "migrateOrganizations fuel env rt =
     (case org_loop fuel env rt of
        None \<Rightarrow> None
      | Some st \<Rightarrow> Some (orgMap st, o_rt st))"

section \<open>The user phase: \<^verbatim>\<open>migrateFromWorkOS\<close>\<close>

text \<open>The request of lines 208-227.\<close>

definition user_name :: "workos_user \<Rightarrow> string" where
  "user_name u =
     (let n = trim (or_else (firstName u) [] @ [CHR 0x20] @ or_else (lastName u) [])
      in if n = [] then email u else n)"

definition user_request ::
    "'w env \<Rightarrow> workos_user \<Rightarrow> auth_factor list \<Rightarrow> 'w \<Rightarrow> create_request" where
  "user_request env u authFactors w =
     \<lparr>model = ''user'',
      payload = UserData
        \<lparr>duser_id = user_id u,
         duser_email = email u,
         duser_emailVerified = emailVerified u,
         duser_name = user_name u,
         duser_image = profilePictureUrl u,
         duser_createdAt = safeDateConversion env w (user_createdAt u),
         duser_updatedAt = safeDateConversion env w (user_updatedAt u),
         duser_role = ''user'',
         duser_banned = False,
         duser_twoFactorEnabled = some (\<lambda>f. factor_type f = ''totp'') authFactors,
         duser_username = first_elem (split_char (CHR ''@'') (email u)),
         duser_phoneNumber =
           (case find_first (\<lambda>f. factor_type f = ''sms'') authFactors of
              None \<Rightarrow> None
            | Some f \<Rightarrow>
                (case sms_config f of None \<Rightarrow> None | Some c \<Rightarrow> Some (phoneNumber c))),
         duser_phoneNumberVerified =
           (find_first (\<lambda>f. factor_type f = ''sms'') authFactors \<noteq> None)\<rparr>,
      forceAllowId = True\<rparr>"

text \<open>Lines 230-247: the credential account of an email factor that has a configuration.\<close>

definition credentials_request ::
    "'w env \<Rightarrow> workos_user \<Rightarrow> created \<Rightarrow> auth_factor \<Rightarrow> email_configuration \<Rightarrow> 'w
      \<Rightarrow> create_request" where
  "credentials_request env u createdUser emailFactor cfg w =
     \<lparr>model = ''account'',
      payload = AccountData
        \<lparr>acct_userId = created_id createdUser,
         acct_type = ''credentials'',
         acct_provider = ''credentials'',
         acct_providerAccountId = user_id u,
         acct_password = hashedPassword cfg,
         acct_createdAt = safeDateConversion env w (factor_createdAt emailFactor),
         acct_updatedAt = safeDateConversion env w (factor_updatedAt emailFactor)\<rparr>,
      forceAllowId = True\<rparr>"

definition credentials_account ::
    "'w env \<Rightarrow> workos_user \<Rightarrow> created \<Rightarrow> auth_factor list \<Rightarrow> ('w, unit) io" where
  "credentials_account env u createdUser authFactors =
     (case find_first (\<lambda>f. factor_type f = ''email'' \<and> email_config f \<noteq> None)
             authFactors of
        None \<Rightarrow> return ()
      | Some emailFactor \<Rightarrow>
          (case email_config emailFactor of
             None \<Rightarrow> throw TypeError
           | Some cfg \<Rightarrow>
               bind (adapter_call env (credentials_request env u createdUser emailFactor cfg))
                 (\<lambda>_. return ())))"

text \<open>Lines 250-271: the OAuth account, inside its own \<^verbatim>\<open>try\<close>.\<close>

definition oauth_request :: "'w env \<Rightarrow> created \<Rightarrow> connection \<Rightarrow> 'w \<Rightarrow> create_request" where
  "oauth_request env createdUser conn w =
     \<lparr>model = ''account'',
      payload = AccountData
        \<lparr>acct_userId = created_id createdUser,
         acct_type = ''oauth'',
         acct_provider = toLowerCase (conn_type conn),
         acct_providerAccountId = conn_id conn,
         acct_password = None,
         acct_createdAt = safeDateConversion env w (conn_createdAt conn),
         acct_updatedAt = safeDateConversion env w (conn_updatedAt conn)\<rparr>,
      forceAllowId = True\<rparr>"

definition oauth_account :: "'w env \<Rightarrow> workos_user \<Rightarrow> created \<Rightarrow> ('w, unit) io" where
  "oauth_account env u createdUser =
     try_catch
       (bind (call (getConnection env (user_id u)) (GetConnection (user_id u)))
          (\<lambda>conn. case conn of
                     None \<Rightarrow> return ()
                   | Some c \<Rightarrow>
                       bind (adapter_call env (oauth_request env createdUser c))
                         (\<lambda>_. return ())))
       (\<lambda>error. return ())"

text \<open>
  Lines 274-306: the organization memberships, inside their own \<^verbatim>\<open>try\<close>.
  \<^verbatim>\<open>membership.role.slug\<close> throws a TypeError when the membership has no role.
\<close>

definition member_request ::
    "'w env \<Rightarrow> created \<Rightarrow> string \<Rightarrow> membership \<Rightarrow> membership_role \<Rightarrow> 'w \<Rightarrow> create_request" where
  "member_request env createdUser orgId m r w =
     \<lparr>model = ''member'',
      payload = MemberData
        \<lparr>member_userId = created_id createdUser,
         member_organizationId = orgId,
         member_role = or_else (role_slug r) ''member'',
         member_createdAt = safeDateConversion env w (mem_createdAt m),
         member_updatedAt = safeDateConversion env w (mem_updatedAt m)\<rparr>,
      forceAllowId = True\<rparr>"

definition add_membership ::
    "'w env \<Rightarrow> (string \<rightharpoonup> string) \<Rightarrow> created \<Rightarrow> membership \<Rightarrow> ('w, unit) io" where
  "add_membership env org_map createdUser m =
     (case org_map (organizationId m) of
        None \<Rightarrow> return ()
      | Some orgId \<Rightarrow>
          if orgId = [] then return ()
          else
            bind (call (getOrganization env (organizationId m))
                    (GetOrganization (organizationId m)))
              (\<lambda>org. case role m of
                        None \<Rightarrow> throw TypeError
                      | Some r \<Rightarrow>
                          bind (adapter_call env (member_request env createdUser orgId m r))
                            (\<lambda>_. return ())))"

definition organization_memberships ::
    "'w env \<Rightarrow> (string \<rightharpoonup> string) \<Rightarrow> workos_user \<Rightarrow> created \<Rightarrow> ('w, unit) io" where
  "organization_memberships env org_map u createdUser =
     try_catch
       (bind (call (listOrganizationMemberships env (user_id u))
                (ListOrganizationMemberships (user_id u)))
          (\<lambda>membershipsResponse.
             case memberships membershipsResponse of
               None \<Rightarrow> return ()
             | Some ms \<Rightarrow> for_each (add_membership env org_map createdUser) ms))
       (\<lambda>error. return ())"

text \<open>Lines 309-322: the two-factor record of every TOTP factor that has a configuration.\<close>

definition twoFactor_request :: "created \<Rightarrow> totp_configuration \<Rightarrow> string \<Rightarrow> create_request" where
  "twoFactor_request createdUser cfg codes =
     \<lparr>model = ''twoFactor'',
      payload = TwoFactorData
        \<lparr>tf_userId = created_id createdUser,
         tf_secret = secret cfg,
         tf_backupCodes = codes\<rparr>,
      forceAllowId = True\<rparr>"

definition two_factor :: "'w env \<Rightarrow> created \<Rightarrow> auth_factor \<Rightarrow> ('w, unit) io" where
  "two_factor env createdUser factor =
     (if factor_type factor = ''totp'' then
        (case totp_config factor of
           None \<Rightarrow> return ()
         | Some cfg \<Rightarrow>
             bind (generateBackupCodes env (secret cfg))
               (\<lambda>codes. bind (adapter_call env (\<lambda>w. twoFactor_request createdUser cfg codes))
                          (\<lambda>_. return ())))
      else return ())"

text \<open>Lines 198-325: the body of the \<^verbatim>\<open>try\<close> of one user.\<close>

definition migrate_user ::
    "'w env \<Rightarrow> (string \<rightharpoonup> string) \<Rightarrow> workos_user \<Rightarrow> ('w, unit) io" where
  "migrate_user env org_map u =
     bind (call (listAuthFactors env (user_id u)) (ListAuthFactors (user_id u)))
       (\<lambda>authFactorsResponse.
          bind (adapter_call env (user_request env u (data authFactorsResponse)))
            (\<lambda>createdUser.
               bind (credentials_account env u createdUser (data authFactorsResponse))
                 (\<lambda>_. bind (oauth_account env u createdUser)
                    (\<lambda>_. bind (organization_memberships env org_map u createdUser)
                       (\<lambda>_. for_each (two_factor env createdUser)
                              (data authFactorsResponse))))))"

text \<open>
  The local variables of lines 168-179; \<open>u_orgMap\<close> is the map that
  \<^verbatim>\<open>migrateOrganizations\<close> returned, and \<open>u_broke\<close> records the \<^verbatim>\<open>break\<close> of line 333.
\<close>

record 'w user_state =
  totalUsers :: nat
  migratedUsers :: nat
  failedUsers :: nat
  u_orgMap :: "string \<rightharpoonup> string"
  hasMoreUsers :: bool
  u_before :: "string option"
  u_broke :: bool
  u_rt :: "'w rt"

text \<open>Lines 196-330: one user, with the \<^verbatim>\<open>catch\<close> at the user boundary.\<close>

definition user_step :: "'w env \<Rightarrow> workos_user \<Rightarrow> 'w user_state \<Rightarrow> 'w user_state" where
  "user_step env u st =
     (case migrate_user env (u_orgMap st) u (u_rt st) of
        (Inr _, rt') \<Rightarrow> st\<lparr>migratedUsers := migratedUsers st + 1, u_rt := rt'\<rparr>
      | (Inl error, rt') \<Rightarrow> st\<lparr>failedUsers := failedUsers st + 1, u_rt := rt'\<rparr>)"

text \<open>Lines 182-334: one round of the \<^verbatim>\<open>while\<close> loop.\<close>

definition user_body :: "'w env \<Rightarrow> 'w user_state \<Rightarrow> 'w user_state" where
  "user_body env st =
     (case call (listUsers env limit (u_before st))
             (ListUsers limit (u_before st)) (u_rt st) of
        (Inl error, rt') \<Rightarrow> st\<lparr>u_broke := True, u_rt := rt'\<rparr>
      | (Inr response, rt') \<Rightarrow>
          fold (user_step env) (data response)
            (st\<lparr>u_before := next_before response,
                hasMoreUsers := (length (data response) = limit),
                totalUsers := totalUsers st + length (data response),
                u_rt := rt'\<rparr>))"

definition user_running :: "'w user_state \<Rightarrow> bool" where
  "user_running st = (hasMoreUsers st \<and> \<not> u_broke st)"

definition user_init :: "(string \<rightharpoonup> string) \<Rightarrow> 'w rt \<Rightarrow> 'w user_state" where
  "user_init org_map rt =
     \<lparr>totalUsers = 0, migratedUsers = 0, failedUsers = 0, u_orgMap = org_map,
      hasMoreUsers = True, u_before = None, u_broke = False, u_rt = rt\<rparr>"

definition user_loop ::
    "nat \<Rightarrow> 'w env \<Rightarrow> (string \<rightharpoonup> string) \<Rightarrow> 'w rt \<Rightarrow> 'w user_state option" where
  "user_loop fuel env org_map rt =
     while_fuel fuel user_running (user_body env) (user_init org_map rt)"

text \<open>
  Lines 166-343: the organization phase, then the user loop on the map it returned. The
  result is the final state, whose counters the summary prints.
\<close>

definition migrateFromWorkOS :: "nat \<Rightarrow> 'w env \<Rightarrow> 'w \<Rightarrow> 'w user_state option" where
  "migrateFromWorkOS fuel env w =
     (case migrateOrganizations fuel env \<lparr>world = w, trace = []\<rparr> of
        None \<Rightarrow> None
      | Some (org_map, rt) \<Rightarrow> user_loop fuel env org_map rt)"

section \<open>What a trace shows\<close>

text \<open>
  The user and organization records requested from the adapter, and the member records
  that it created, in order.
\<close>

fun user_payload :: "event \<Rightarrow> user_data list" where
  "user_payload (Create req r) = (case payload req of UserData d \<Rightarrow> [d] | _ \<Rightarrow> [])"
| "user_payload _ = []"

definition user_payloads :: "event list \<Rightarrow> user_data list" where
  "user_payloads tr = concat (map user_payload tr)"

fun member_created :: "event \<Rightarrow> member_data list" where
  "member_created (Create req (Inr c)) =
     (case payload req of MemberData d \<Rightarrow> [d] | _ \<Rightarrow> [])"
| "member_created _ = []"

definition members_created :: "event list \<Rightarrow> member_data list" where
  "members_created tr = concat (map member_created tr)"

fun organization_payload :: "event \<Rightarrow> organization_data list" where
  "organization_payload (Create req r) =
     (case payload req of OrganizationData d \<Rightarrow> [d] | _ \<Rightarrow> [])"
| "organization_payload _ = []"

definition organization_payloads :: "event list \<Rightarrow> organization_data list" where
  "organization_payloads tr = concat (map organization_payload tr)"

text \<open>The user ids whose authentication factors were requested, in order.\<close>

fun factor_request :: "event \<Rightarrow> string list" where
  "factor_request (ListAuthFactors uid r) = [uid]"
| "factor_request _ = []"

definition factor_requests :: "event list \<Rightarrow> string list" where
  "factor_requests tr = concat (map factor_request tr)"

text \<open>The exceptions with which the recorded calls threw, in order.\<close>

fun thrown :: "event \<Rightarrow> exn list" where
  "thrown (ListOrganizations lim cursor (Inl e)) = [e]"
| "thrown (ListUsers lim cursor (Inl e)) = [e]"
| "thrown (ListAuthFactors uid (Inl e)) = [e]"
| "thrown (GetConnection uid (Inl e)) = [e]"
| "thrown (ListOrganizationMemberships uid (Inl e)) = [e]"
| "thrown (GetOrganization oid (Inl e)) = [e]"
| "thrown (Create req (Inl e)) = [e]"
| "thrown _ = []"

definition exceptions :: "event list \<Rightarrow> exn list" where
  "exceptions tr = concat (map thrown tr)"

text \<open>The pattern \<^verbatim>\<open>[A-Za-z0-9]{5}-[A-Za-z0-9]{5}\<close> of a backup code.\<close>

definition alnum :: "char \<Rightarrow> bool" where
  "alnum c =
     (let n = code_unit c
      in (65 \<le> n \<and> n \<le> 90) \<or> (97 \<le> n \<and> n \<le> 122) \<or> (48 \<le> n \<and> n \<le> 57))"

definition backup_code_pattern :: "string \<Rightarrow> bool" where
  "backup_code_pattern code =
     (length code = 11 \<and> list_all alnum (take 5 code) \<and> code ! 5 = CHR ''-''
      \<and> list_all alnum (drop 6 code))"

text \<open>
  The events a computation may add to the trace: \<open>emits_only P m\<close> says that \<open>m\<close> extends
  the trace, and only by events that satisfy \<open>P\<close>.
\<close>

definition extends_with :: "(event \<Rightarrow> bool) \<Rightarrow> 'w rt \<Rightarrow> 'w rt \<Rightarrow> bool" where
  "extends_with P rt rt' = (\<exists>evs. trace rt' = trace rt @ evs \<and> list_all P evs)"

definition emits_only :: "(event \<Rightarrow> bool) \<Rightarrow> ('w, 'a) io \<Rightarrow> bool" where
  "emits_only P m = (\<forall>rt. extends_with P rt (snd (m rt)))"

text \<open>The events of one user after the user record: lookups, and records that are not users.\<close>

fun after_user_event :: "event \<Rightarrow> bool" where
  "after_user_event (Create req r) =
     (forceAllowId req \<and>
      (case payload req of
         AccountData d \<Rightarrow> True
       | MemberData d \<Rightarrow> True
       | TwoFactorData d \<Rightarrow> True
       | _ \<Rightarrow> False))"
| "after_user_event (GetConnection uid r) = True"
| "after_user_event (ListOrganizationMemberships uid r) = True"
| "after_user_event (GetOrganization oid r) = True"
| "after_user_event _ = False"

text \<open>The pages that the list calls returned, in order.\<close>

fun org_page :: "event \<Rightarrow> organization list list" where
  "org_page (ListOrganizations lim cursor (Inr response)) = [data response]"
| "org_page _ = []"

definition org_pages :: "event list \<Rightarrow> organization list list" where
  "org_pages tr = concat (map org_page tr)"

fun user_page :: "event \<Rightarrow> workos_user list list" where
  "user_page (ListUsers lim cursor (Inr response)) = [data response]"
| "user_page _ = []"

definition user_pages :: "event list \<Rightarrow> workos_user list list" where
  "user_pages tr = concat (map user_page tr)"

text \<open>An event that is not a request to the adapter, or is one with \<^verbatim>\<open>forceAllowId: true\<close>.\<close>

fun forces_id :: "event \<Rightarrow> bool" where
  "forces_id (Create req r) = forceAllowId req"
| "forces_id _ = True"

text \<open>
  The events of one user: the request for the factors and, when it succeeds, the user
  record followed by events that are no user records. The events of a page of users are
  those of its users, one after the other; likewise for organizations, whose only event
  is the organization record.
\<close>

definition user_events :: "'w env \<Rightarrow> workos_user \<Rightarrow> event list \<Rightarrow> bool" where
  "user_events env u evs =
     ((\<exists>e. evs = [ListAuthFactors (user_id u) (Inl e)]) \<or>
      (\<exists>resp w r rest.
         evs = ListAuthFactors (user_id u) (Inr resp)
               # Create (user_request env u (data resp) w) r # rest
         \<and> list_all after_user_event rest))"

fun users_events :: "'w env \<Rightarrow> workos_user list \<Rightarrow> event list \<Rightarrow> bool" where
  "users_events env [] evs = (evs = [])"
| "users_events env (u # us) evs =
     (\<exists>a b. evs = a @ b \<and> user_events env u a \<and> users_events env us b)"

fun orgs_events :: "'w env \<Rightarrow> organization list \<Rightarrow> event list \<Rightarrow> bool" where
  "orgs_events env [] evs = (evs = [])"
| "orgs_events env (org # orgs) evs =
     (\<exists>w r b. evs = Create (organization_request env org w) r # b \<and> orgs_events env orgs b)"

text \<open>
  What a trace says about identifiers: every request to the adapter has
  \<^verbatim>\<open>forceAllowId: true\<close>; the organization records requested carry, in order, the ids and
  names of the organizations on the pages fetched; every user record requested carries the
  id and email of a user on a page fetched.
\<close>

definition ids_preserved :: "event list \<Rightarrow> bool" where
  "ids_preserved tr =
     (list_all forces_id tr
      \<and> map (\<lambda>d. (dorg_id d, dorg_name d)) (organization_payloads tr)
          = map (\<lambda>org. (org_id org, org_name org)) (concat (org_pages tr))
      \<and> set (map (\<lambda>d. (duser_id d, duser_email d)) (user_payloads tr))
          \<subseteq> set (map (\<lambda>u. (user_id u, email u)) (concat (user_pages tr))))"

text \<open>
  The map from source organization id to destination organization id that a trace
  determines: every organization record that the adapter created adds its entry.
\<close>

fun org_map_write :: "event \<Rightarrow> (string \<rightharpoonup> string) \<Rightarrow> (string \<rightharpoonup> string)" where
  "org_map_write (Create req (Inr c)) m =
     (case payload req of
        OrganizationData d \<Rightarrow> m(dorg_id d \<mapsto> created_id c)
      | _ \<Rightarrow> m)"
| "org_map_write _ m = m"

definition org_map_of :: "event list \<Rightarrow> (string \<rightharpoonup> string)" where
  "org_map_of tr = fold org_map_write tr Map.empty"

text \<open>Two states of the organization loop that differ at most in the map.\<close>

definition agree_except_orgMap :: "'w org_state \<Rightarrow> 'w org_state \<Rightarrow> bool" where
  "agree_except_orgMap a b =
     (totalOrgs a = totalOrgs b \<and> migratedOrgs a = migratedOrgs b
      \<and> failedOrgs a = failedOrgs b \<and> hasMoreOrgs a = hasMoreOrgs b
      \<and> o_before a = o_before b \<and> o_broke a = o_broke b \<and> o_rt a = o_rt b)"

text \<open>What holds of the state at the end of every round of the two loops.\<close>

definition org_invariant :: "'w org_state \<Rightarrow> bool" where
  "org_invariant st =
     (ids_preserved (trace (o_rt st)) \<and> orgMap st = org_map_of (trace (o_rt st)))"

definition user_invariant :: "'w user_state \<Rightarrow> bool" where
  "user_invariant st =
     (ids_preserved (trace (u_rt st)) \<and> u_orgMap st = org_map_of (trace (u_rt st)))"


definition member_due ::
    "created \<Rightarrow> (string \<rightharpoonup> string) \<Rightarrow> membership \<Rightarrow> (string \<times> string \<times> string) list" where
  "member_due createdUser org_map m =
     (case org_map (organizationId m) of
        None \<Rightarrow> []
      | Some orgId \<Rightarrow>
          if orgId = [] then []
          else (case role m of
                  None \<Rightarrow> []
                | Some r \<Rightarrow> [(created_id createdUser, orgId, or_else (role_slug r) ''member'')]))"

definition members_due ::
    "created \<Rightarrow> (string \<rightharpoonup> string) \<Rightarrow> membership list \<Rightarrow> (string \<times> string \<times> string) list" where
  "members_due createdUser org_map ms = concat (map (member_due createdUser org_map) ms)"


section \<open>An example world\<close>

text \<open>
  A small world on which the functions can be run: the state counts the calls made, the
  source has two organizations and two users on one short page each, the first user has a
  TOTP factor and three memberships, and the adapter rejects the second user.
\<close>

definition demo_orgs :: "organization list" where
  "demo_orgs =
     [\<lparr>org_id = ''org_1'', org_name = ''Acme Corp. 42'',
       org_createdAt = DNumber (Num 0), org_updatedAt = DString ''2024-01-01''\<rparr>,
      \<lparr>org_id = ''org_2'', org_name = ''beta'',
       org_createdAt = DString [], org_updatedAt = DNull\<rparr>]"

definition demo_users :: "workos_user list" where
  "demo_users =
     [\<lparr>user_id = ''user_1'', email = ''ada@example.com'', emailVerified = True,
       firstName = Some ''Ada'', lastName = None, profilePictureUrl = None,
       user_createdAt = DString ''2024-01-01'', user_updatedAt = DUndefined\<rparr>,
      \<lparr>user_id = ''user_2'', email = ''bob@example.com'', emailVerified = False,
       firstName = None, lastName = None, profilePictureUrl = None,
       user_createdAt = DNull, user_updatedAt = DNull\<rparr>]"

definition demo_factors :: "string \<Rightarrow> auth_factor list" where
  "demo_factors uid =
     (if uid = ''user_1'' then
        [\<lparr>factor_id = ''f_1'', factor_type = ''totp'',
          factor_createdAt = DNull, factor_updatedAt = DNull,
          totp_config = Some \<lparr>qr_code = ''qr'', secret = ''s3cret''\<rparr>,
          sms_config = None, email_config = None\<rparr>]
      else [])"

definition demo_memberships :: "membership list" where
  "demo_memberships =
     [\<lparr>organizationId = ''org_1'', role = Some \<lparr>role_slug = Some ''admin''\<rparr>,
       mem_createdAt = DNull, mem_updatedAt = DNull\<rparr>,
      \<lparr>organizationId = ''org_9'', role = Some \<lparr>role_slug = Some ''owner''\<rparr>,
       mem_createdAt = DNull, mem_updatedAt = DNull\<rparr>,
      \<lparr>organizationId = ''org_2'', role = Some \<lparr>role_slug = None\<rparr>,
       mem_createdAt = DNull, mem_updatedAt = DNull\<rparr>]"

definition demo_create :: "create_request \<Rightarrow> nat \<Rightarrow> created result \<times> nat" where
  "demo_create req w =
     (case payload req of
        OrganizationData d \<Rightarrow> (Inr \<lparr>created_id = dorg_id d\<rparr>, Suc w)
      | UserData d \<Rightarrow>
          (if duser_id d = ''user_2'' then (Inl (Rejected ''duplicate key''), Suc w)
           else (Inr \<lparr>created_id = duser_id d\<rparr>, Suc w))
      | _ \<Rightarrow> (Inr \<lparr>created_id = ''generated''\<rparr>, Suc w))"

definition demo_env :: "nat env" where
  "demo_env =
     \<lparr>listOrganizations = (\<lambda>lim cursor w.
        (Inr \<lparr>data = demo_orgs, listMetadata = Some \<lparr>before = None, after = None\<rparr>\<rparr>,
         Suc w)),
      listUsers = (\<lambda>lim cursor w.
        (Inr \<lparr>data = demo_users, listMetadata = Some \<lparr>before = None, after = None\<rparr>\<rparr>,
         Suc w)),
      listAuthFactors = (\<lambda>uid w.
        (Inr \<lparr>data = demo_factors uid, listMetadata = None\<rparr>, Suc w)),
      getConnection = (\<lambda>uid w. (Inl (Rejected ''not found''), Suc w)),
      listOrganizationMemberships = (\<lambda>uid w.
        (Inr \<lparr>memberships = Some demo_memberships\<rparr>, Suc w)),
      getOrganization = (\<lambda>oid w.
        (Inr \<lparr>org_id = oid, org_name = ''name'', org_createdAt = DNull,
              org_updatedAt = DNull\<rparr>, Suc w)),
      adapter_create = demo_create,
      generateRandomString = (\<lambda>n alphabets w.
        (take n (rotate w ''aB3dE6gH9jK2mN5pQ8''), Suc w)),
      symmetricEncrypt = (\<lambda>plain key w. (Inr (key @ '':'' @ rev plain), w)),
      json_stringify = (\<lambda>codes. concat (map (\<lambda>c. c @ '','') codes)),
      date_now = (\<lambda>w. 1700000000000 + int w),
      date_parse = (\<lambda>s. if s = ''2024-01-01'' then Date 1704067200000 else InvalidDate)\<rparr>"

text \<open>The same world with an organization lookup that always fails.\<close>

definition demo_env_lookup_fails :: "nat env" where
  "demo_env_lookup_fails =
     demo_env\<lparr>getOrganization := (\<lambda>oid w. (Inl (Rejected ''timeout''), Suc w))\<rparr>"

text \<open>
  A source with more than one page: the first page of organizations and of users is full,
  the page after the cursor is short. In the second world the page after the cursor cannot
  be fetched.
\<close>

definition paged_env :: "nat env" where
  "paged_env =
     demo_env
       \<lparr>listOrganizations := (\<lambda>lim cursor w.
          (case cursor of
             None \<Rightarrow> Inr \<lparr>data = replicate 100 (demo_orgs ! 0),
                          listMetadata = Some \<lparr>before = Some ''cursor_1'', after = None\<rparr>\<rparr>
           | Some c \<Rightarrow> Inr \<lparr>data = demo_orgs, listMetadata = None\<rparr>,
           Suc w)),
        listUsers := (\<lambda>lim cursor w.
          (case cursor of
             None \<Rightarrow> Inr \<lparr>data = replicate 100 (demo_users ! 1),
                          listMetadata = Some \<lparr>before = Some ''cursor_1'', after = None\<rparr>\<rparr>
           | Some c \<Rightarrow> Inr \<lparr>data = demo_users, listMetadata = None\<rparr>,
           Suc w))\<rparr>"

definition paged_env_down :: "nat env" where
  "paged_env_down =
     demo_env
       \<lparr>listOrganizations := (\<lambda>lim cursor w.
          (case cursor of
             None \<Rightarrow> Inr \<lparr>data = replicate 100 (demo_orgs ! 0),
                          listMetadata = Some \<lparr>before = Some ''cursor_1'', after = None\<rparr>\<rparr>
           | Some c \<Rightarrow> Inl (Rejected ''503''),
           Suc w)),
        listUsers := (\<lambda>lim cursor w.
          (case cursor of
             None \<Rightarrow> Inr \<lparr>data = replicate 100 (demo_users ! 1),
                          listMetadata = Some \<lparr>before = Some ''cursor_1'', after = None\<rparr>\<rparr>
           | Some c \<Rightarrow> Inl (Rejected ''503''),
           Suc w))\<rparr>"

text \<open>The map that the organization phase builds in the example world.\<close>

definition demo_org_map :: "string \<rightharpoonup> string" where
  "demo_org_map = [''org_1'' \<mapsto> ''org_1'', ''org_2'' \<mapsto> ''org_2'']"

section \<open>Properties\<close>

subsection \<open>Slug derivation\<close>

lemma code_unit_inj: "code_unit c = code_unit d \<Longrightarrow> c = d"
  by (simp add: code_unit_def)

lemma lower_alnum_set:
  assumes "lower_alnum c"
  shows "c \<in> set ''abcdefghijklmnopqrstuvwxyz0123456789''"
proof -
  define n where "n = code_unit c"
  from assms have r: "(97 \<le> n \<and> n \<le> 122) \<or> (48 \<le> n \<and> n \<le> 57)"
    by (simp add: lower_alnum_def Let_def n_def)
  have "\<exists>d \<in> set ''abcdefghijklmnopqrstuvwxyz0123456789''. code_unit d = n"
    using r by (simp add: code_unit_def) arith
  then show ?thesis using code_unit_inj unfolding n_def by blast
qed

lemma replace_outside_single:
  "replace_outside cls [r] s = map (\<lambda>c. if cls c then c else r) s"
  by (induction s) auto

text \<open>
  C3. For every organization name, the slug is the lowercased name with every character
  outside \<^verbatim>\<open>[a-z0-9]\<close> replaced by a hyphen; so it contains only lowercase letters, digits
  and hyphens, and it is as long as the lowercased name.
\<close>

theorem slug_derivation:
  "slug_of_name name = map (\<lambda>c. if lower_alnum c then c else CHR ''-'') (toLowerCase name)
   \<and> set (slug_of_name name) \<subseteq> set ''abcdefghijklmnopqrstuvwxyz0123456789-''
   \<and> length (slug_of_name name) = length (toLowerCase name)"
proof -
  define f where "f = (\<lambda>c. if lower_alnum c then c else CHR ''-'')"
  have eq: "slug_of_name name = map f (toLowerCase name)"
    by (simp add: slug_of_name_def replace_outside_single f_def)
  have "f c \<in> set ''abcdefghijklmnopqrstuvwxyz0123456789-''" for c
    using lower_alnum_set [of c] unfolding f_def by (cases "lower_alnum c") auto
  then have "f ` set (toLowerCase name) \<subseteq> set ''abcdefghijklmnopqrstuvwxyz0123456789-''"
    by blast
  then have "set (slug_of_name name) \<subseteq> set ''abcdefghijklmnopqrstuvwxyz0123456789-''"
    unfolding eq set_map .
  with eq show ?thesis unfolding f_def by simp
qed

theorem slug_derivation_witness:
  "slug_of_name ''Acme Corp. 42'' = ''acme-corp--42''
   \<and> toLowerCase ''Acme Corp. 42'' = ''acme corp. 42''
   \<and> set ''acme-corp--42'' \<subseteq> set ''abcdefghijklmnopqrstuvwxyz0123456789-''
   \<and> length ''acme-corp--42'' = length ''acme corp. 42''"
proof -
  have s: "slug_of_name ''Acme Corp. 42'' = ''acme-corp--42''" by code_simp
  have l: "toLowerCase ''Acme Corp. 42'' = ''acme corp. 42''" by code_simp
  from slug_derivation [of "''Acme Corp. 42''"] show ?thesis unfolding s l by simp
qed

subsection \<open>Trace extension\<close>

lemma extends_with_refl: "extends_with P rt rt"
  by (simp add: extends_with_def)

lemma extends_with_trans:
  "extends_with P a b \<Longrightarrow> extends_with P b c \<Longrightarrow> extends_with P a c"
  unfolding extends_with_def by (metis append.assoc list_all_append)

lemma emits_only_return: "emits_only P (return x)"
  by (simp add: emits_only_def return_def extends_with_refl)

lemma emits_only_throw: "emits_only P (throw e)"
  by (simp add: emits_only_def throw_def extends_with_refl)

lemma emits_only_bind:
  assumes "emits_only P m" and "\<And>x. emits_only P (f x)"
  shows "emits_only P (bind m f)"
  unfolding emits_only_def
proof
  fix rt
  obtain r rt1 where m: "m rt = (r, rt1)" by (cases "m rt")
  from assms(1) m have e1: "extends_with P rt rt1"
    unfolding emits_only_def by (metis snd_conv)
  show "extends_with P rt (snd (bind m f rt))"
  proof (cases r)
    case (Inl e)
    with m e1 show ?thesis by (simp add: bind_def)
  next
    case (Inr x)
    from assms(2) have "extends_with P rt1 (snd (f x rt1))"
      unfolding emits_only_def by blast
    with e1 m Inr show ?thesis
      by (simp add: bind_def) (rule extends_with_trans)
  qed
qed

lemma emits_only_try_catch:
  assumes "emits_only P m" and "\<And>e. emits_only P (h e)"
  shows "emits_only P (try_catch m h)"
  unfolding emits_only_def
proof
  fix rt
  obtain r rt1 where m: "m rt = (r, rt1)" by (cases "m rt")
  from assms(1) m have e1: "extends_with P rt rt1"
    unfolding emits_only_def by (metis snd_conv)
  show "extends_with P rt (snd (try_catch m h rt))"
  proof (cases r)
    case (Inr x)
    with m e1 show ?thesis by (simp add: try_catch_def)
  next
    case (Inl e)
    from assms(2) have "extends_with P rt1 (snd (h e rt1))"
      unfolding emits_only_def by blast
    with e1 m Inl show ?thesis
      by (simp add: try_catch_def) (rule extends_with_trans)
  qed
qed

lemma emits_only_call:
  assumes "\<And>r. P (ev r)"
  shows "emits_only P (call f ev)"
  using assms by (auto simp: emits_only_def call_def extends_with_def split: prod.splits)

lemma emits_only_call_quiet: "emits_only P (call_quiet f)"
  by (auto simp: emits_only_def call_quiet_def extends_with_def split: prod.splits)

lemma emits_only_adapter_call:
  assumes "\<And>w r. P (Create (request w) r)"
  shows "emits_only P (adapter_call env request)"
  using assms
  by (auto simp: emits_only_def adapter_call_def Let_def call_def extends_with_def
           split: prod.splits)

lemma emits_only_for_each:
  assumes "\<And>x. emits_only P (f x)"
  shows "emits_only P (for_each f xs)"
  by (induction xs) (simp_all add: emits_only_return emits_only_bind assms)

lemma emits_only_generateBackupCodes: "emits_only P (generateBackupCodes env key)"
  by (auto simp: emits_only_def generateBackupCodes_def call_quiet_def extends_with_def
           split: prod.splits)

lemma emits_only_credentials_account:
  "emits_only after_user_event (credentials_account env u c fs)"
  unfolding credentials_account_def
  by (auto split: option.splits
           intro!: emits_only_return emits_only_throw emits_only_bind emits_only_adapter_call
           simp: credentials_request_def)

lemma emits_only_oauth_account:
  "emits_only after_user_event (oauth_account env u c)"
  unfolding oauth_account_def
  by (auto split: option.splits
           intro!: emits_only_return emits_only_try_catch emits_only_bind emits_only_adapter_call
                   emits_only_call
           simp: oauth_request_def)

lemma emits_only_add_membership:
  "emits_only after_user_event (add_membership env m c x)"
  unfolding add_membership_def
  by (auto split: option.splits
           intro!: emits_only_return emits_only_throw emits_only_bind emits_only_adapter_call
                   emits_only_call
           simp: member_request_def)

lemma emits_only_organization_memberships:
  "emits_only after_user_event (organization_memberships env m u c)"
  unfolding organization_memberships_def
  by (auto split: option.splits
           intro!: emits_only_return emits_only_try_catch emits_only_bind emits_only_call
                   emits_only_for_each emits_only_add_membership)

lemma emits_only_two_factor:
  "emits_only after_user_event (two_factor env c f)"
  unfolding two_factor_def
  by (auto split: option.splits
           intro!: emits_only_return emits_only_bind emits_only_adapter_call
                   emits_only_generateBackupCodes
           simp: twoFactor_request_def)

lemma emits_only_after_user:
  "emits_only after_user_event
     (bind (credentials_account env u c fs)
        (\<lambda>_. bind (oauth_account env u c)
           (\<lambda>_. bind (organization_memberships env m u c)
              (\<lambda>_. for_each (two_factor env c) fs))))"
  by (intro emits_only_bind emits_only_credentials_account emits_only_oauth_account
        emits_only_organization_memberships emits_only_for_each emits_only_two_factor)

subsection \<open>Date coercion\<close>

text \<open>
  C10. Date coercion treats every falsy input as absent: for the number 0 and for the empty
  string \<^verbatim>\<open>safeDateConversion\<close> returns the current time, not the parsed value (which for
  0 is the epoch), so an organization stamped with 0 is requested with the time of the run.
\<close>

theorem safeDateConversion_falsy_is_now:
  "safeDateConversion env w (DNumber (Num 0)) = Date (date_now env w)
   \<and> safeDateConversion env w (DString []) = Date (date_now env w)
   \<and> new_Date env (DNumber (Num 0)) = Date 0
   \<and> new_Date env (DString []) = date_parse env []
   \<and> (\<forall>d. falsy d \<longrightarrow> safeDateConversion env w d = Date (date_now env w))
   \<and> (\<forall>d. \<not> falsy d \<longrightarrow> safeDateConversion env w d = new_Date env d)
   \<and> organization_request env
        \<lparr>org_id = i, org_name = n, org_createdAt = DNumber (Num 0),
         org_updatedAt = DString []\<rparr> w =
      \<lparr>model = ''organization'',
       payload = OrganizationData
         \<lparr>dorg_id = i, dorg_name = n, dorg_slug = slug_of_name n,
          dorg_createdAt = Date (date_now env w), dorg_updatedAt = Date (date_now env w)\<rparr>,
       forceAllowId = True\<rparr>"
  by (simp add: safeDateConversion_def organization_request_def)

theorem safeDateConversion_falsy_is_now_witness:
  "safeDateConversion demo_env 7 (DNumber (Num 0)) = Date 1700000000007
   \<and> safeDateConversion demo_env 7 (DString []) = Date 1700000000007
   \<and> new_Date demo_env (DNumber (Num 0)) = Date 0
   \<and> falsy (DNumber (Num 0)) \<and> falsy (DString []) \<and> falsy DNull
   \<and> safeDateConversion demo_env 7 DNull = Date 1700000000007
   \<and> \<not> falsy (DNumber (Num 5))
   \<and> safeDateConversion demo_env 7 (DNumber (Num 5)) = Date 5"
  using safeDateConversion_falsy_is_now [of demo_env 7]
  by (simp add: demo_env_def)

subsection \<open>Backup codes\<close>

lemma random_codes_length: "length (fst (random_codes env n w)) = n"
proof (induction n arbitrary: w)
  case 0
  then show ?case by simp
next
  case (Suc n)
  obtain c w' where g: "generateRandomString env 10 [''a-z'', ''0-9'', ''A-Z''] w = (c, w')"
    by (cases "generateRandomString env 10 [''a-z'', ''0-9'', ''A-Z''] w")
  obtain cs w'' where r: "random_codes env n w' = (cs, w'')"
    by (cases "random_codes env n w'")
  from Suc [of w'] r have "length cs = n" by simp
  then show ?case using g r by simp
qed

lemma random_codes_all:
  assumes "\<And>w. P (fst (generateRandomString env 10 [''a-z'', ''0-9'', ''A-Z''] w))"
  shows "list_all P (fst (random_codes env n w))"
proof (induction n arbitrary: w)
  case 0
  then show ?case by simp
next
  case (Suc n)
  obtain c w' where g: "generateRandomString env 10 [''a-z'', ''0-9'', ''A-Z''] w = (c, w')"
    by (cases "generateRandomString env 10 [''a-z'', ''0-9'', ''A-Z''] w")
  obtain cs w'' where r: "random_codes env n w' = (cs, w'')"
    by (cases "random_codes env n w'")
  from assms [of w] g have "P c" by simp
  moreover from Suc [of w'] r have "list_all P cs" by simp
  ultimately show ?case using g r by simp
qed

lemma format_code_pattern:
  assumes "length code = 10" and "list_all alnum code"
  shows "backup_code_pattern (format_code code)"
proof -
  have t: "list_all alnum (take 5 code)" and d: "list_all alnum (drop 5 code)"
    using assms(2) by (auto simp: list_all_iff dest: in_set_takeD in_set_dropD)
  have l: "length (take 5 code) = 5" using assms(1) by simp
  have "format_code code ! 5 = CHR ''-''"
    unfolding format_code_def using l by (simp add: nth_append)
  moreover have "take 5 (format_code code) = take 5 code"
    unfolding format_code_def using l by simp
  moreover have "drop 6 (format_code code) = drop 5 code"
    unfolding format_code_def using l by simp
  moreover have "length (format_code code) = 11"
    unfolding format_code_def using assms(1) by simp
  ultimately show ?thesis using t d by (simp add: backup_code_pattern_def)
qed

text \<open>
  C5. Every invocation of the backup-code generator produces exactly 10 codes, each the two
  halves of a string of the random generator joined by a hyphen; when the random generator
  returns what was asked of it (ten characters of a-z, 0-9, A-Z), each code matches
  \<^verbatim>\<open>[A-Za-z0-9]{5}-[A-Za-z0-9]{5}\<close>. The result is the cipher text of the serialized list
  under the TOTP secret as the key, and nothing is added to the trace.
\<close>

theorem generateBackupCodes_shape:
  "length (fst (backupCodes env w)) = 10
   \<and> fst (backupCodes env w) = map format_code (fst (random_codes env 10 w))
   \<and> ((\<forall>w'. length (fst (generateRandomString env 10 [''a-z'', ''0-9'', ''A-Z''] w')) = 10
            \<and> list_all alnum (fst (generateRandomString env 10 [''a-z'', ''0-9'', ''A-Z''] w')))
        \<longrightarrow> list_all backup_code_pattern (fst (backupCodes env w)))
   \<and> fst (generateBackupCodes env key \<lparr>world = w, trace = tr\<rparr>) =
        fst (symmetricEncrypt env (json_stringify env (fst (backupCodes env w))) key
               (snd (backupCodes env w)))
   \<and> trace (snd (generateBackupCodes env key \<lparr>world = w, trace = tr\<rparr>)) = tr"
proof -
  have b: "fst (backupCodes env w) = map format_code (fst (random_codes env 10 w))"
    by (cases "random_codes env 10 w") (simp add: backupCodes_def)
  have a: "length (fst (backupCodes env w)) = 10"
    unfolding b using random_codes_length [of env 10 w] by simp
  have c: "list_all backup_code_pattern (fst (backupCodes env w))"
    if gen: "\<forall>w'. length (fst (generateRandomString env 10 [''a-z'', ''0-9'', ''A-Z''] w')) = 10
            \<and> list_all alnum (fst (generateRandomString env 10 [''a-z'', ''0-9'', ''A-Z''] w'))"
  proof -
    have "list_all (\<lambda>c. length c = 10 \<and> list_all alnum c) (fst (random_codes env 10 w))"
      by (rule random_codes_all) (use gen in blast)
    then show ?thesis
      unfolding b by (simp add: list_all_iff format_code_pattern)
  qed
  have d: "fst (generateBackupCodes env key \<lparr>world = w, trace = tr\<rparr>) =
        fst (symmetricEncrypt env (json_stringify env (fst (backupCodes env w))) key
               (snd (backupCodes env w)))"
    by (cases "backupCodes env w")
       (simp add: generateBackupCodes_def call_quiet_def split: prod.splits)
  have e: "trace (snd (generateBackupCodes env key \<lparr>world = w, trace = tr\<rparr>)) = tr"
    by (cases "backupCodes env w")
       (simp add: generateBackupCodes_def call_quiet_def split: prod.splits)
  from a b c d e show ?thesis by blast
qed

lemma demo_generator_contract:
  "length (fst (generateRandomString demo_env 10 [''a-z'', ''0-9'', ''A-Z''] w)) = 10
   \<and> list_all alnum (fst (generateRandomString demo_env 10 [''a-z'', ''0-9'', ''A-Z''] w))"
proof -
  have "list_all alnum ''aB3dE6gH9jK2mN5pQ8''" by code_simp
  then have "list_all alnum (rotate w ''aB3dE6gH9jK2mN5pQ8'')"
    unfolding list_all_iff set_rotate .
  then have "list_all alnum (take 10 (rotate w ''aB3dE6gH9jK2mN5pQ8''))"
    unfolding list_all_iff using in_set_takeD by fast
  then show ?thesis by (simp add: demo_env_def)
qed

theorem generateBackupCodes_shape_witness:
  "length (fst (backupCodes demo_env 2)) = 10
   \<and> list_all backup_code_pattern (fst (backupCodes demo_env 2))
   \<and> hd (fst (backupCodes demo_env 2)) = ''3dE6g-H9jK2''
   \<and> fst (generateBackupCodes demo_env ''s3cret'' \<lparr>world = 2, trace = []\<rparr>) =
       Inr (''s3cret:'' @ rev (json_stringify demo_env (fst (backupCodes demo_env 2))))"
proof -
  have h: "hd (fst (backupCodes demo_env 2)) = ''3dE6g-H9jK2''" by code_simp
  have s: "fst (symmetricEncrypt demo_env p k w') = Inr (k @ '':'' @ rev p)" for p k w'
    by (simp add: demo_env_def)
  from generateBackupCodes_shape [of demo_env 2 "''s3cret''" "[]"]
  have t: "length (fst (backupCodes demo_env 2)) = 10"
    and p: "list_all backup_code_pattern (fst (backupCodes demo_env 2))"
    and e: "fst (generateBackupCodes demo_env ''s3cret'' \<lparr>world = 2, trace = []\<rparr>) =
        fst (symmetricEncrypt demo_env
               (json_stringify demo_env (fst (backupCodes demo_env 2))) ''s3cret''
               (snd (backupCodes demo_env 2)))"
    using demo_generator_contract by blast+
  from t p h e show ?thesis unfolding s by simp
qed

subsection \<open>The user record\<close>

lemma user_payloads_append [simp]:
  "user_payloads (a @ b) = user_payloads a @ user_payloads b"
  by (simp add: user_payloads_def)

lemma user_payloads_Nil [simp]: "user_payloads [] = []"
  by (simp add: user_payloads_def)

lemma user_payloads_Cons [simp]: "user_payloads (e # tr) = user_payload e @ user_payloads tr"
  by (simp add: user_payloads_def)

lemma after_user_event_no_user: "after_user_event e \<Longrightarrow> user_payload e = []"
  by (cases e) (auto split: create_data.splits)

lemma after_user_events_no_user: "list_all after_user_event evs \<Longrightarrow> user_payloads evs = []"
  by (induction evs) (simp_all add: after_user_event_no_user)

lemma migrate_user_trace_failed:
  assumes l: "listAuthFactors env (user_id u) (world rt) = (Inl e, w1)"
  shows "trace (snd (migrate_user env m u rt)) = trace rt @ [ListAuthFactors (user_id u) (Inl e)]"
  by (simp add: migrate_user_def bind_def call_def l)

lemma migrate_user_trace_fetched:
  assumes l: "listAuthFactors env (user_id u) (world rt) = (Inr resp, w1)"
  shows "\<exists>r rest. trace (snd (migrate_user env m u rt)) =
            trace rt @ ListAuthFactors (user_id u) (Inr resp)
                       # Create (user_request env u (data resp) w1) r # rest
          \<and> list_all after_user_event rest"
proof -
  define rt1 where
    "rt1 = \<lparr>world = w1, trace = trace rt @ [ListAuthFactors (user_id u) (Inr resp)]\<rparr>"
  have c: "call (listAuthFactors env (user_id u)) (ListAuthFactors (user_id u)) rt
             = (Inr resp, rt1)"
    by (simp add: call_def l rt1_def)
  obtain r2 w2 where a: "adapter_create env (user_request env u (data resp) w1) w1 = (r2, w2)"
    by (cases "adapter_create env (user_request env u (data resp) w1) w1")
  define rt2 where
    "rt2 = \<lparr>world = w2, trace = trace rt1 @ [Create (user_request env u (data resp) w1) r2]\<rparr>"
  have c2: "adapter_call env (user_request env u (data resp)) rt1 = (r2, rt2)"
    by (simp add: adapter_call_def call_def Let_def rt1_def rt2_def a)
  have t2: "trace rt2 = trace rt @ [ListAuthFactors (user_id u) (Inr resp),
                                     Create (user_request env u (data resp) w1) r2]"
    by (simp add: rt1_def rt2_def)
  show ?thesis
  proof (cases r2)
    case (Inl e)
    have "migrate_user env m u rt = (Inl e, rt2)"
      using c c2 Inl by (simp add: migrate_user_def bind_def)
    then have "trace (snd (migrate_user env m u rt)) =
            trace rt @ ListAuthFactors (user_id u) (Inr resp)
                       # Create (user_request env u (data resp) w1) r2 # []"
      using t2 by simp
    moreover have "list_all after_user_event []" by simp
    ultimately show ?thesis by blast
  next
    case (Inr cu)
    let ?rest = "bind (credentials_account env u cu (data resp))
      (\<lambda>_. bind (oauth_account env u cu)
         (\<lambda>_. bind (organization_memberships env m u cu)
            (\<lambda>_. for_each (two_factor env cu) (data resp))))"
    from emits_only_after_user [of env u cu "data resp" m]
    obtain rest where rest: "trace (snd (?rest rt2)) = trace rt2 @ rest"
      and ok: "list_all after_user_event rest"
      unfolding emits_only_def extends_with_def by blast
    have "migrate_user env m u rt = ?rest rt2"
      using c c2 Inr by (simp add: migrate_user_def bind_def)
    then have "trace (snd (migrate_user env m u rt)) =
            trace rt @ ListAuthFactors (user_id u) (Inr resp)
                       # Create (user_request env u (data resp) w1) r2 # rest"
      using rest t2 by simp
    with ok show ?thesis by blast
  qed
qed

lemma migrate_user_user_payloads_failed:
  assumes "listAuthFactors env (user_id u) (world rt) = (Inl e, w1)"
  shows "user_payloads (trace (snd (migrate_user env m u rt))) = user_payloads (trace rt)"
  unfolding migrate_user_trace_failed [OF assms] by simp

lemma migrate_user_user_payloads_fetched:
  assumes "listAuthFactors env (user_id u) (world rt) = (Inr resp, w1)"
  shows "\<exists>d. payload (user_request env u (data resp) w1) = UserData d \<and>
         user_payloads (trace (snd (migrate_user env m u rt))) = user_payloads (trace rt) @ [d]"
proof -
  from migrate_user_trace_fetched [OF assms, of m] obtain r rest where
    t: "trace (snd (migrate_user env m u rt)) =
            trace rt @ ListAuthFactors (user_id u) (Inr resp)
                       # Create (user_request env u (data resp) w1) r # rest" and
    rest: "list_all after_user_event rest"
    by blast
  from rest have n: "user_payloads rest = []" by (rule after_user_events_no_user)
  obtain d where d: "payload (user_request env u (data resp) w1) = UserData d"
    by (simp add: user_request_def)
  have "user_payloads (trace (snd (migrate_user env m u rt))) = user_payloads (trace rt) @ [d]"
    unfolding t using n d by simp
  with d show ?thesis by blast
qed

lemma some_iff: "some p xs \<longleftrightarrow> (\<exists>x\<in>set xs. p x)"
  by (induction xs) auto

lemma first_elem_split_char:
  "first_elem (split_char sep s) = Some (takeWhile (\<lambda>c. c \<noteq> sep) s)"
proof (induction s)
  case Nil
  then show ?case by simp
next
  case (Cons c s)
  then show ?case by (cases "split_char sep s") auto
qed

text \<open>
  C4. For every migrated user, the user record's \<^verbatim>\<open>twoFactorEnabled\<close> is true if and only if
  the authentication factors fetched for that user contain an element of type "totp".
  Processing a user requests exactly one user record when the factors were fetched, and none
  otherwise.
\<close>

theorem twoFactorEnabled_iff_totp:
  "case listAuthFactors env (user_id u) (world rt) of
     (Inl e, w1) \<Rightarrow>
       user_payloads (trace (snd (migrate_user env m u rt))) = user_payloads (trace rt)
   | (Inr resp, w1) \<Rightarrow>
       (\<exists>d. user_payloads (trace (snd (migrate_user env m u rt))) = user_payloads (trace rt) @ [d]
          \<and> duser_id d = user_id u
          \<and> (duser_twoFactorEnabled d \<longleftrightarrow> (\<exists>f\<in>set (data resp). factor_type f = ''totp'')))"
proof -
  obtain r w1 where l: "listAuthFactors env (user_id u) (world rt) = (r, w1)"
    by (cases "listAuthFactors env (user_id u) (world rt)")
  show ?thesis
  proof (cases r)
    case (Inl e)
    with l migrate_user_user_payloads_failed [where env = env and u = u and rt = rt and m = m] show ?thesis by simp
  next
    case (Inr resp)
    with l migrate_user_user_payloads_fetched [where env = env and u = u and rt = rt and m = m] obtain d where
      d: "payload (user_request env u (data resp) w1) = UserData d" and
      p: "user_payloads (trace (snd (migrate_user env m u rt))) = user_payloads (trace rt) @ [d]"
      by auto
    from d have "duser_id d = user_id u"
      and "duser_twoFactorEnabled d = some (\<lambda>f. factor_type f = ''totp'') (data resp)"
      by (auto simp: user_request_def)
    with p l Inr show ?thesis by (simp add: some_iff)
  qed
qed

theorem twoFactorEnabled_iff_totp_witness:
  "(\<exists>d. user_payloads (trace (snd (migrate_user demo_env Map.empty (demo_users ! 0)
            \<lparr>world = 0, trace = []\<rparr>))) = [d]
        \<and> duser_id d = ''user_1'' \<and> duser_twoFactorEnabled d)
   \<and> (\<exists>d. user_payloads (trace (snd (migrate_user demo_env Map.empty (demo_users ! 1)
            \<lparr>world = 0, trace = []\<rparr>))) = [d]
        \<and> duser_id d = ''user_2'' \<and> \<not> duser_twoFactorEnabled d)"
  using twoFactorEnabled_iff_totp [where env = demo_env and u = "demo_users ! 0"
          and rt = "\<lparr>world = 0, trace = []\<rparr>" and m = Map.empty]
    twoFactorEnabled_iff_totp [where env = demo_env and u = "demo_users ! 1"
          and rt = "\<lparr>world = 0, trace = []\<rparr>" and m = Map.empty]
  by (simp add: demo_env_def demo_users_def demo_factors_def)

text \<open>
  C8. For every migrated user, the user record's \<^verbatim>\<open>username\<close> is the part of the user's email
  before the first "@" (the whole email when it has none).
\<close>

theorem username_is_local_part:
  "(case listAuthFactors env (user_id u) (world rt) of
      (Inl e, w1) \<Rightarrow>
        user_payloads (trace (snd (migrate_user env m u rt))) = user_payloads (trace rt)
    | (Inr resp, w1) \<Rightarrow>
        (\<exists>d. user_payloads (trace (snd (migrate_user env m u rt))) = user_payloads (trace rt) @ [d]
           \<and> duser_id d = user_id u
           \<and> duser_email d = email u
           \<and> duser_username d = Some (takeWhile (\<lambda>c. c \<noteq> CHR ''@'') (email u))))
   \<and> (\<forall>local rest. email u = local @ ''@'' @ rest \<and> CHR ''@'' \<notin> set local
         \<longrightarrow> takeWhile (\<lambda>c. c \<noteq> CHR ''@'') (email u) = local)
   \<and> (CHR ''@'' \<notin> set (email u) \<longrightarrow> takeWhile (\<lambda>c. c \<noteq> CHR ''@'') (email u) = email u)"
proof -
  obtain r w1 where l: "listAuthFactors env (user_id u) (world rt) = (r, w1)"
    by (cases "listAuthFactors env (user_id u) (world rt)")
  have a: "case listAuthFactors env (user_id u) (world rt) of
      (Inl e, w1) \<Rightarrow>
        user_payloads (trace (snd (migrate_user env m u rt))) = user_payloads (trace rt)
    | (Inr resp, w1) \<Rightarrow>
        (\<exists>d. user_payloads (trace (snd (migrate_user env m u rt))) = user_payloads (trace rt) @ [d]
           \<and> duser_id d = user_id u
           \<and> duser_email d = email u
           \<and> duser_username d = Some (takeWhile (\<lambda>c. c \<noteq> CHR ''@'') (email u)))"
  proof (cases r)
    case (Inl e)
    with l migrate_user_user_payloads_failed [where env = env and u = u and rt = rt and m = m] show ?thesis by simp
  next
    case (Inr resp)
    with l migrate_user_user_payloads_fetched [where env = env and u = u and rt = rt and m = m] obtain d where
      d: "payload (user_request env u (data resp) w1) = UserData d" and
      p: "user_payloads (trace (snd (migrate_user env m u rt))) = user_payloads (trace rt) @ [d]"
      by auto
    from d have "duser_id d = user_id u" and "duser_email d = email u"
      and "duser_username d = first_elem (split_char (CHR ''@'') (email u))"
      by (auto simp: user_request_def)
    with p l Inr show ?thesis by (simp add: first_elem_split_char)
  qed
  have b: "takeWhile (\<lambda>c. c \<noteq> CHR ''@'') (email u) = local"
    if "email u = local @ ''@'' @ rest \<and> CHR ''@'' \<notin> set local" for local rest
    using that by (auto simp: takeWhile_tail)
  have c: "CHR ''@'' \<notin> set (email u) \<longrightarrow> takeWhile (\<lambda>c. c \<noteq> CHR ''@'') (email u) = email u"
 by (auto simp: takeWhile_eq_all_conv)
  from a b c show ?thesis by blast
qed

theorem username_is_local_part_witness:
  "(\<exists>d. user_payloads (trace (snd (migrate_user demo_env Map.empty (demo_users ! 0)
            \<lparr>world = 0, trace = []\<rparr>))) = [d]
        \<and> duser_email d = ''ada@example.com'' \<and> duser_username d = Some ''ada'')
   \<and> email (demo_users ! 0) = ''ada'' @ ''@'' @ ''example.com''
   \<and> CHR ''@'' \<notin> set ''ada''
   \<and> takeWhile (\<lambda>c. c \<noteq> CHR ''@'') (email (demo_users ! 0)) = ''ada''
   \<and> CHR ''@'' \<notin> set (email ((demo_users ! 0)\<lparr>email := ''localhost''\<rparr>))
   \<and> (\<exists>d. user_payloads (trace (snd (migrate_user demo_env Map.empty
                ((demo_users ! 0)\<lparr>email := ''localhost''\<rparr>)
                \<lparr>world = 0, trace = []\<rparr>))) = [d]
        \<and> duser_email d = ''localhost'' \<and> duser_username d = Some ''localhost'')"
proof -
  note t = username_is_local_part [where env = demo_env and u = "demo_users ! 0"
          and rt = "\<lparr>world = 0, trace = []\<rparr>" and m = Map.empty]
  note t2 = username_is_local_part [where env = demo_env
          and u = "(demo_users ! 0)\<lparr>email := ''localhost''\<rparr>"
          and rt = "\<lparr>world = 0, trace = []\<rparr>" and m = Map.empty]
  have l: "listAuthFactors demo_env (user_id (demo_users ! 0)) 0 =
             (Inr \<lparr>data = demo_factors ''user_1'', listMetadata = None\<rparr>, 1)"
    by (simp add: demo_env_def demo_users_def)
  have e: "email (demo_users ! 0) = ''ada@example.com''"
    by (simp add: demo_users_def)
  from t have a: "\<exists>d. user_payloads (trace (snd (migrate_user demo_env Map.empty (demo_users ! 0)
            \<lparr>world = 0, trace = []\<rparr>))) = [d]
        \<and> duser_email d = ''ada@example.com'' \<and> duser_username d = Some ''ada''"
    by (simp add: l e) blast
  from t have "email (demo_users ! 0) = ''ada'' @ ''@'' @ ''example.com'' \<and> CHR ''@'' \<notin> set ''ada''
      \<longrightarrow> takeWhile (\<lambda>c. c \<noteq> CHR ''@'') (email (demo_users ! 0)) = ''ada''"
    by blast
  with e have b: "takeWhile (\<lambda>c. c \<noteq> CHR ''@'') (email (demo_users ! 0)) = ''ada''"
    by simp
  have n: "CHR ''@'' \<notin> set (email ((demo_users ! 0)\<lparr>email := ''localhost''\<rparr>))"
    by simp
  from t2 n have
    c: "takeWhile (\<lambda>c. c \<noteq> CHR ''@'') (email ((demo_users ! 0)\<lparr>email := ''localhost''\<rparr>))
          = email ((demo_users ! 0)\<lparr>email := ''localhost''\<rparr>)"
    by blast
  from t2 have d: "\<exists>d. user_payloads (trace (snd (migrate_user demo_env Map.empty
                ((demo_users ! 0)\<lparr>email := ''localhost''\<rparr>)
                \<lparr>world = 0, trace = []\<rparr>))) = [d]
        \<and> duser_email d = ''localhost'' \<and> duser_username d = Some ''localhost''"
    unfolding c by (simp add: l) blast
  from a b n d e show ?thesis by simp
qed

subsection \<open>Loops\<close>

lemma while_fuel_iterations:
  "while_fuel n b c s =
     (if b (iterations n b c s) then None else Some (iterations n b c s))"
  by (induction n arbitrary: s) simp_all

lemma iterations_stuck: "\<not> b s \<Longrightarrow> iterations n b c s = s"
  by (cases n) simp_all

lemma iterations_Suc_end:
  "iterations (Suc n) b c s =
     (if b (iterations n b c s) then c (iterations n b c s) else iterations n b c s)"
proof (induction n arbitrary: s)
  case 0
  then show ?case by simp
next
  case (Suc n)
  show ?case
  proof (cases "b s")
    case True
    then show ?thesis using Suc [of "c s"] by simp
  next
    case False
    then show ?thesis by simp
  qed
qed

lemma iterations_running_before:
  "b (iterations n b c s) \<Longrightarrow> k \<le> n \<Longrightarrow> b (iterations k b c s)"
proof (induction n arbitrary: k)
  case 0
  then show ?case by simp
next
  case (Suc n)
  show ?case
  proof (cases "k = Suc n")
    case True
    with Suc.prems show ?thesis by simp
  next
    case False
    with Suc.prems have k: "k \<le> n" by simp
    have "b (iterations n b c s)"
    proof (rule ccontr)
      assume "\<not> b (iterations n b c s)"
      then have "iterations (Suc n) b c s = iterations n b c s"
        by (simp add: iterations_Suc_end del: iterations.simps)
      with Suc.prems(1) \<open>\<not> b (iterations n b c s)\<close> show False by simp
    qed
    with Suc.IH k show ?thesis by blast
  qed
qed

lemma iterations_invariant:
  assumes "I s" and "\<And>t. I t \<Longrightarrow> b t \<Longrightarrow> I (c t)"
  shows "I (iterations n b c s)"
proof (induction n)
  case 0
  then show ?case using assms(1) by simp
next
  case (Suc n)
  then show ?case using assms(2) by (simp add: iterations_Suc_end del: iterations.simps)
qed

lemma iterations_stable:
  assumes "\<not> b (iterations n b c s)" and "n \<le> k"
  shows "iterations k b c s = iterations n b c s"
  using assms(2)
proof (induction k)
  case 0
  then show ?case by simp
next
  case (Suc k)
  show ?case
  proof (cases "n = Suc k")
    case True
    then show ?thesis by simp
  next
    case False
    with Suc.prems have "n \<le> k" by simp
    with Suc.IH have "iterations k b c s = iterations n b c s" by simp
    then show ?thesis using assms(1) by (simp add: iterations_Suc_end del: iterations.simps)
  qed
qed

lemma while_fuel_enough:
  assumes "\<not> b (iterations n b c s)" and "n \<le> k"
  shows "while_fuel k b c s = Some (iterations n b c s)"
  using iterations_stable [of b n c s k] assms by (simp add: while_fuel_iterations)

lemma while_fuel_short:
  assumes "b (iterations n b c s)" and "k \<le> n"
  shows "while_fuel k b c s = None"
  using iterations_running_before [of b n c s k] assms by (simp add: while_fuel_iterations)

lemma while_fuel_invariant:
  assumes "while_fuel n b c s = Some r" and "I s" and "\<And>t. I t \<Longrightarrow> b t \<Longrightarrow> I (c t)"
  shows "I r"
proof -
  from assms(1) have "r = iterations n b c s"
    by (simp add: while_fuel_iterations split: if_splits)
  then show ?thesis using iterations_invariant [of I s b c n] assms(2,3) by simp
qed

subsection \<open>One page of users\<close>

lemma migrate_user_events:
  "\<exists>evs. trace (snd (migrate_user env m u rt)) = trace rt @ evs \<and> user_events env u evs"
proof -
  obtain r w1 where l: "listAuthFactors env (user_id u) (world rt) = (r, w1)"
    by (cases "listAuthFactors env (user_id u) (world rt)")
  show ?thesis
  proof (cases r)
    case (Inl e)
    with l have "trace (snd (migrate_user env m u rt)) =
        trace rt @ [ListAuthFactors (user_id u) (Inl e)]"
      by (simp add: migrate_user_trace_failed)
    then show ?thesis unfolding user_events_def by blast
  next
    case (Inr resp)
    with l migrate_user_trace_fetched [where env = env and u = u and rt = rt and m = m]
    obtain r2 rest where
      "trace (snd (migrate_user env m u rt)) =
         trace rt @ ListAuthFactors (user_id u) (Inr resp)
                    # Create (user_request env u (data resp) w1) r2 # rest"
      and "list_all after_user_event rest"
      by blast
    then show ?thesis unfolding user_events_def by blast
  qed
qed

lemma user_step_trace:
  "trace (u_rt (user_step env u st)) = trace (snd (migrate_user env (u_orgMap st) u (u_rt st)))"
  by (cases "migrate_user env (u_orgMap st) u (u_rt st)")
     (auto simp: user_step_def split: sum.splits)

lemma user_step_frame:
  "u_orgMap (user_step env u st) = u_orgMap st"
  "totalUsers (user_step env u st) = totalUsers st"
  "hasMoreUsers (user_step env u st) = hasMoreUsers st"
  "u_before (user_step env u st) = u_before st"
  "u_broke (user_step env u st) = u_broke st"
  by (cases "migrate_user env (u_orgMap st) u (u_rt st)";
      auto simp: user_step_def split: sum.splits)+

lemma user_step_counters:
  "case fst (migrate_user env (u_orgMap st) u (u_rt st)) of
     Inl e \<Rightarrow> failedUsers (user_step env u st) = failedUsers st + 1
              \<and> migratedUsers (user_step env u st) = migratedUsers st
   | Inr x \<Rightarrow> migratedUsers (user_step env u st) = migratedUsers st + 1
              \<and> failedUsers (user_step env u st) = failedUsers st"
  by (cases "migrate_user env (u_orgMap st) u (u_rt st)")
     (auto simp: user_step_def split: sum.splits)

lemma user_step_sum:
  "migratedUsers (user_step env u st) + failedUsers (user_step env u st) =
     migratedUsers st + failedUsers st + 1"
  "migratedUsers st \<le> migratedUsers (user_step env u st)"
  "failedUsers st \<le> failedUsers (user_step env u st)"
  by (cases "migrate_user env (u_orgMap st) u (u_rt st)";
      auto simp: user_step_def split: sum.splits)+

lemma fold_user_step_frame:
  "u_orgMap (fold (user_step env) us st) = u_orgMap st"
  "totalUsers (fold (user_step env) us st) = totalUsers st"
  "hasMoreUsers (fold (user_step env) us st) = hasMoreUsers st"
  "u_before (fold (user_step env) us st) = u_before st"
  "u_broke (fold (user_step env) us st) = u_broke st"
  by (induction us arbitrary: st; simp add: user_step_frame)+

lemma fold_user_step_sum:
  "migratedUsers (fold (user_step env) us st) + failedUsers (fold (user_step env) us st) =
     migratedUsers st + failedUsers st + length us"
proof (induction us arbitrary: st)
  case Nil
  then show ?case by simp
next
  case (Cons u us)
  show ?case using Cons [of "user_step env u st"] user_step_sum(1) [where env = env and u = u and st = st] by simp
qed

lemma fold_user_step_mono:
  "migratedUsers st \<le> migratedUsers (fold (user_step env) us st)"
  "failedUsers st \<le> failedUsers (fold (user_step env) us st)"
proof (induction us arbitrary: st)
  case Nil
  {
    case 1
    then show ?case by simp
  next
    case 2
    then show ?case by simp
  }
next
  case (Cons u us)
  {
    case 1
    show ?case using Cons(1) [of "user_step env u st"]
        user_step_sum(2) [where env = env and u = u and st = st]
      by simp
  next
    case 2
    show ?case using Cons(2) [of "user_step env u st"]
        user_step_sum(3) [where env = env and u = u and st = st]
      by simp
  }
qed

lemma fold_user_step_events:
  "\<exists>evs. trace (u_rt (fold (user_step env) us st)) = trace (u_rt st) @ evs
         \<and> users_events env us evs"
proof (induction us arbitrary: st)
  case Nil
  then show ?case by simp
next
  case (Cons u us)
  from migrate_user_events [where env = env and m = "u_orgMap st" and u = u and rt = "u_rt st"]
  obtain a where
    a: "trace (u_rt (user_step env u st)) = trace (u_rt st) @ a" "user_events env u a"
    unfolding user_step_trace by blast
  from Cons [of "user_step env u st"] obtain b where
    b: "trace (u_rt (fold (user_step env) us (user_step env u st))) =
          trace (u_rt (user_step env u st)) @ b" "users_events env us b"
    by blast
  from a b have "trace (u_rt (fold (user_step env) (u # us) st)) = trace (u_rt st) @ a @ b"
    by simp
  moreover from a b have "users_events env (u # us) (a @ b)" by auto
  ultimately show ?case by blast
qed

lemma factor_requests_append [simp]:
  "factor_requests (a @ b) = factor_requests a @ factor_requests b"
  by (simp add: factor_requests_def)

lemma factor_requests_Nil [simp]: "factor_requests [] = []"
  by (simp add: factor_requests_def)

lemma factor_requests_Cons [simp]:
  "factor_requests (e # tr) = factor_request e @ factor_requests tr"
  by (simp add: factor_requests_def)

lemma after_user_events_no_factor_request:
  "list_all after_user_event evs \<Longrightarrow> factor_requests evs = []"
proof (induction evs)
  case Nil
  then show ?case by simp
next
  case (Cons e evs)
  then show ?case by (cases e) simp_all
qed

lemma user_events_factor_requests:
  "user_events env u evs \<Longrightarrow> factor_requests evs = [user_id u]"
  unfolding user_events_def by (auto simp: after_user_events_no_factor_request)

lemma users_events_factor_requests:
  "users_events env us evs \<Longrightarrow> factor_requests evs = map user_id us"
  by (induction us arbitrary: evs) (auto simp: user_events_factor_requests)

subsection \<open>One page of organizations\<close>

lemma org_step_trace:
  "\<exists>r. trace (o_rt (org_step env org st)) =
         trace (o_rt st) @ [Create (organization_request env org (world (o_rt st))) r]"
  by (cases "adapter_create env (organization_request env org (world (o_rt st)))
               (world (o_rt st))")
     (auto simp: org_step_def adapter_call_def call_def Let_def split: sum.splits)

lemma org_step_frame:
  "totalOrgs (org_step env org st) = totalOrgs st"
  "hasMoreOrgs (org_step env org st) = hasMoreOrgs st"
  "o_before (org_step env org st) = o_before st"
  "o_broke (org_step env org st) = o_broke st"
  by (cases "adapter_call env (organization_request env org) (o_rt st)";
      auto simp: org_step_def split: sum.splits)+

lemma org_step_sum:
  "migratedOrgs (org_step env org st) + failedOrgs (org_step env org st) =
     migratedOrgs st + failedOrgs st + 1"
  by (cases "adapter_call env (organization_request env org) (o_rt st)")
     (auto simp: org_step_def split: sum.splits)

lemma fold_org_step_frame:
  "totalOrgs (fold (org_step env) orgs st) = totalOrgs st"
  "hasMoreOrgs (fold (org_step env) orgs st) = hasMoreOrgs st"
  "o_before (fold (org_step env) orgs st) = o_before st"
  "o_broke (fold (org_step env) orgs st) = o_broke st"
  by (induction orgs arbitrary: st; simp add: org_step_frame)+

lemma fold_org_step_sum:
  "migratedOrgs (fold (org_step env) orgs st) + failedOrgs (fold (org_step env) orgs st) =
     migratedOrgs st + failedOrgs st + length orgs"
proof (induction orgs arbitrary: st)
  case Nil
  then show ?case by simp
next
  case (Cons org orgs)
  show ?case
    using Cons [of "org_step env org st"] org_step_sum [where env = env and org = org and st = st]
    by simp
qed

lemma fold_org_step_events:
  "\<exists>evs. trace (o_rt (fold (org_step env) orgs st)) = trace (o_rt st) @ evs
         \<and> orgs_events env orgs evs"
proof (induction orgs arbitrary: st)
  case Nil
  then show ?case by simp
next
  case (Cons org orgs)
  from org_step_trace [where env = env and org = org and st = st] obtain r where
    a: "trace (o_rt (org_step env org st)) =
          trace (o_rt st) @ [Create (organization_request env org (world (o_rt st))) r]"
    by blast
  from Cons [of "org_step env org st"] obtain b where
    b: "trace (o_rt (fold (org_step env) orgs (org_step env org st))) =
          trace (o_rt (org_step env org st)) @ b" "orgs_events env orgs b"
    by blast
  from a b have "trace (o_rt (fold (org_step env) (org # orgs) st)) =
      trace (o_rt st) @ Create (organization_request env org (world (o_rt st))) r # b"
    by simp
  moreover from b have
    "orgs_events env (org # orgs) (Create (organization_request env org (world (o_rt st))) r # b)"
    by auto
  ultimately show ?case by blast
qed

lemma org_pages_append [simp]: "org_pages (a @ b) = org_pages a @ org_pages b"
  by (simp add: org_pages_def)

lemma org_pages_Nil [simp]: "org_pages [] = []"
  by (simp add: org_pages_def)

lemma org_pages_Cons [simp]: "org_pages (e # tr) = org_page e @ org_pages tr"
  by (simp add: org_pages_def)

lemma orgs_events_no_page: "orgs_events env orgs evs \<Longrightarrow> org_pages evs = []"
  by (induction orgs arbitrary: evs) auto

subsection \<open>One round of the organization loop\<close>

lemma org_body_failed:
  assumes "listOrganizations env limit (o_before st) (world (o_rt st)) = (Inl e, w')"
  shows "org_body env st =
           st\<lparr>o_broke := True,
              o_rt := \<lparr>world = w',
                       trace = trace (o_rt st) @ [ListOrganizations limit (o_before st) (Inl e)]\<rparr>\<rparr>"
  using assms by (simp add: org_body_def call_def)

lemma org_body_fetched:
  assumes "listOrganizations env limit (o_before st) (world (o_rt st)) = (Inr resp, w')"
  shows "org_body env st =
           fold (org_step env) (data resp)
             (st\<lparr>o_before := next_before resp,
                 hasMoreOrgs := (length (data resp) = limit),
                 totalOrgs := totalOrgs st + length (data resp),
                 o_rt := \<lparr>world = w',
                          trace = trace (o_rt st)
                                  @ [ListOrganizations limit (o_before st) (Inr resp)]\<rparr>\<rparr>)"
  using assms by (simp add: org_body_def call_def)

lemma org_body_fetched_facts:
  assumes "listOrganizations env limit (o_before st) (world (o_rt st)) = (Inr resp, w')"
  shows "totalOrgs (org_body env st) = totalOrgs st + length (data resp)"
    and "hasMoreOrgs (org_body env st) = (length (data resp) = limit)"
    and "o_broke (org_body env st) = o_broke st"
    and "o_before (org_body env st) = next_before resp"
    and "migratedOrgs (org_body env st) + failedOrgs (org_body env st) =
           migratedOrgs st + failedOrgs st + length (data resp)"
    and "org_pages (trace (o_rt (org_body env st))) = org_pages (trace (o_rt st)) @ [data resp]"
proof -
  let ?s = "st\<lparr>o_before := next_before resp,
                 hasMoreOrgs := (length (data resp) = limit),
                 totalOrgs := totalOrgs st + length (data resp),
                 o_rt := \<lparr>world = w',
                          trace = trace (o_rt st)
                                  @ [ListOrganizations limit (o_before st) (Inr resp)]\<rparr>\<rparr>"
  have b: "org_body env st = fold (org_step env) (data resp) ?s"
    by (rule org_body_fetched [OF assms])
  show "totalOrgs (org_body env st) = totalOrgs st + length (data resp)"
    unfolding b by (simp add: fold_org_step_frame)
  show "hasMoreOrgs (org_body env st) = (length (data resp) = limit)"
    unfolding b by (simp add: fold_org_step_frame)
  show "o_broke (org_body env st) = o_broke st"
    unfolding b by (simp add: fold_org_step_frame)
  show "o_before (org_body env st) = next_before resp"
    unfolding b by (simp add: fold_org_step_frame)
  show "migratedOrgs (org_body env st) + failedOrgs (org_body env st) =
           migratedOrgs st + failedOrgs st + length (data resp)"
    unfolding b by (simp add: fold_org_step_sum)
  from fold_org_step_events [where env = env and orgs = "data resp" and st = ?s]
  obtain evs where "trace (o_rt (fold (org_step env) (data resp) ?s)) = trace (o_rt ?s) @ evs"
    and "orgs_events env (data resp) evs"
    by blast
  then show "org_pages (trace (o_rt (org_body env st))) = org_pages (trace (o_rt st)) @ [data resp]"
    unfolding b by (simp add: orgs_events_no_page)
qed

lemma org_body_running:
  assumes "org_running (org_body env st)"
  shows "\<exists>resp w'. listOrganizations env limit (o_before st) (world (o_rt st)) = (Inr resp, w')
                   \<and> length (data resp) = limit"
proof -
  obtain r w' where l: "listOrganizations env limit (o_before st) (world (o_rt st)) = (r, w')"
    by (cases "listOrganizations env limit (o_before st) (world (o_rt st))")
  show ?thesis
  proof (cases r)
    case (Inl e)
    with l assms show ?thesis by (simp add: org_body_failed org_running_def)
  next
    case (Inr resp)
    with l assms org_body_fetched_facts(2) [where env = env and st = st and resp = resp and w' = w']
    show ?thesis by (simp add: org_running_def)
  qed
qed

lemma org_body_sum:
  assumes "migratedOrgs st + failedOrgs st = totalOrgs st"
  shows "migratedOrgs (org_body env st) + failedOrgs (org_body env st) = totalOrgs (org_body env st)"
proof -
  obtain r w' where l: "listOrganizations env limit (o_before st) (world (o_rt st)) = (r, w')"
    by (cases "listOrganizations env limit (o_before st) (world (o_rt st))")
  show ?thesis
  proof (cases r)
    case (Inl e)
    with l assms show ?thesis by (simp add: org_body_failed)
  next
    case (Inr resp)
    with l assms
      org_body_fetched_facts(1,5) [where env = env and st = st and resp = resp and w' = w']
    show ?thesis by simp
  qed
qed

lemma org_rounds_sum:
  "migratedOrgs (iterations k org_running (org_body env) (org_init rt))
   + failedOrgs (iterations k org_running (org_body env) (org_init rt))
   = totalOrgs (iterations k org_running (org_body env) (org_init rt))"
  by (rule iterations_invariant) (simp_all add: org_init_def org_body_sum)

lemma org_rounds_running:
  assumes "org_running (iterations k org_running (org_body env) (org_init rt))"
  shows "totalOrgs (iterations k org_running (org_body env) (org_init rt)) = k * limit
       \<and> map length (org_pages (trace (o_rt (iterations k org_running (org_body env) (org_init rt)))))
         = map length (org_pages (trace rt)) @ replicate k limit"
  using assms
proof (induction k)
  case 0
  then show ?case by (simp add: org_init_def)
next
  case (Suc k)
  let ?st = "iterations k org_running (org_body env) (org_init rt)"
  from Suc.prems have run: "org_running ?st"
    by (rule iterations_running_before) simp
  then have step: "iterations (Suc k) org_running (org_body env) (org_init rt) = org_body env ?st"
    by (simp add: iterations_Suc_end del: iterations.simps)
  from Suc.prems step have "org_running (org_body env ?st)" by simp
  then obtain resp w' where
    l: "listOrganizations env limit (o_before ?st) (world (o_rt ?st)) = (Inr resp, w')"
    and len: "length (data resp) = limit"
    using org_body_running by blast
  from Suc.IH run have ih: "totalOrgs ?st = k * limit"
    "map length (org_pages (trace (o_rt ?st))) = map length (org_pages (trace rt)) @ replicate k limit"
    by simp_all
  have "totalOrgs (org_body env ?st) = Suc k * limit"
    using org_body_fetched_facts(1) [OF l] ih(1) len by simp
  moreover have "map length (org_pages (trace (o_rt (org_body env ?st))))
         = map length (org_pages (trace rt)) @ replicate (Suc k) limit"
    using org_body_fetched_facts(6) [OF l] ih(2) len by (simp add: replicate_append_same)
  ultimately show ?case unfolding step by simp
qed

lemma user_pages_append [simp]: "user_pages (a @ b) = user_pages a @ user_pages b"
  by (simp add: user_pages_def)

lemma user_pages_Nil [simp]: "user_pages [] = []"
  by (simp add: user_pages_def)

lemma user_pages_Cons [simp]: "user_pages (e # tr) = user_page e @ user_pages tr"
  by (simp add: user_pages_def)

lemma after_user_events_no_page: "list_all after_user_event evs \<Longrightarrow> user_pages evs = []"
proof (induction evs)
  case Nil
  then show ?case by simp
next
  case (Cons e evs)
  then show ?case by (cases e) simp_all
qed

lemma user_events_no_page: "user_events env u evs \<Longrightarrow> user_pages evs = []"
  unfolding user_events_def by (auto simp: after_user_events_no_page)

lemma users_events_no_page: "users_events env us evs \<Longrightarrow> user_pages evs = []"
  by (induction us arbitrary: evs) (auto simp: user_events_no_page)

subsection \<open>One round of the user loop\<close>

lemma user_body_failed:
  assumes "listUsers env limit (u_before st) (world (u_rt st)) = (Inl e, w')"
  shows "user_body env st =
           st\<lparr>u_broke := True,
              u_rt := \<lparr>world = w',
                       trace = trace (u_rt st) @ [ListUsers limit (u_before st) (Inl e)]\<rparr>\<rparr>"
  using assms by (simp add: user_body_def call_def)

lemma user_body_fetched:
  assumes "listUsers env limit (u_before st) (world (u_rt st)) = (Inr resp, w')"
  shows "user_body env st =
           fold (user_step env) (data resp)
             (st\<lparr>u_before := next_before resp,
                 hasMoreUsers := (length (data resp) = limit),
                 totalUsers := totalUsers st + length (data resp),
                 u_rt := \<lparr>world = w',
                          trace = trace (u_rt st)
                                  @ [ListUsers limit (u_before st) (Inr resp)]\<rparr>\<rparr>)"
  using assms by (simp add: user_body_def call_def)

lemma user_body_fetched_facts:
  assumes "listUsers env limit (u_before st) (world (u_rt st)) = (Inr resp, w')"
  shows "totalUsers (user_body env st) = totalUsers st + length (data resp)"
    and "hasMoreUsers (user_body env st) = (length (data resp) = limit)"
    and "u_broke (user_body env st) = u_broke st"
    and "u_before (user_body env st) = next_before resp"
    and "migratedUsers (user_body env st) + failedUsers (user_body env st) =
           migratedUsers st + failedUsers st + length (data resp)"
    and "user_pages (trace (u_rt (user_body env st))) = user_pages (trace (u_rt st)) @ [data resp]"
    and "u_orgMap (user_body env st) = u_orgMap st"
proof -
  let ?s = "st\<lparr>u_before := next_before resp,
                 hasMoreUsers := (length (data resp) = limit),
                 totalUsers := totalUsers st + length (data resp),
                 u_rt := \<lparr>world = w',
                          trace = trace (u_rt st)
                                  @ [ListUsers limit (u_before st) (Inr resp)]\<rparr>\<rparr>"
  have b: "user_body env st = fold (user_step env) (data resp) ?s"
    by (rule user_body_fetched [OF assms])
  show "totalUsers (user_body env st) = totalUsers st + length (data resp)"
    unfolding b by (simp add: fold_user_step_frame)
  show "hasMoreUsers (user_body env st) = (length (data resp) = limit)"
    unfolding b by (simp add: fold_user_step_frame)
  show "u_broke (user_body env st) = u_broke st"
    unfolding b by (simp add: fold_user_step_frame)
  show "u_before (user_body env st) = next_before resp"
    unfolding b by (simp add: fold_user_step_frame)
  show "u_orgMap (user_body env st) = u_orgMap st"
    unfolding b by (simp add: fold_user_step_frame)
  show "migratedUsers (user_body env st) + failedUsers (user_body env st) =
           migratedUsers st + failedUsers st + length (data resp)"
    unfolding b by (simp add: fold_user_step_sum)
  from fold_user_step_events [where env = env and us = "data resp" and st = ?s]
  obtain evs where "trace (u_rt (fold (user_step env) (data resp) ?s)) = trace (u_rt ?s) @ evs"
    and "users_events env (data resp) evs"
    by blast
  then show "user_pages (trace (u_rt (user_body env st))) = user_pages (trace (u_rt st)) @ [data resp]"
    unfolding b by (simp add: users_events_no_page)
qed

lemma user_body_running:
  assumes "user_running (user_body env st)"
  shows "\<exists>resp w'. listUsers env limit (u_before st) (world (u_rt st)) = (Inr resp, w')
                   \<and> length (data resp) = limit"
proof -
  obtain r w' where l: "listUsers env limit (u_before st) (world (u_rt st)) = (r, w')"
    by (cases "listUsers env limit (u_before st) (world (u_rt st))")
  show ?thesis
  proof (cases r)
    case (Inl e)
    with l assms show ?thesis by (simp add: user_body_failed user_running_def)
  next
    case (Inr resp)
    with l assms user_body_fetched_facts(2) [where env = env and st = st and resp = resp and w' = w']
    show ?thesis by (simp add: user_running_def)
  qed
qed

lemma user_body_orgMap: "u_orgMap (user_body env st) = u_orgMap st"
proof -
  obtain r w' where l: "listUsers env limit (u_before st) (world (u_rt st)) = (r, w')"
    by (cases "listUsers env limit (u_before st) (world (u_rt st))")
  show ?thesis
  proof (cases r)
    case (Inl e)
    with l show ?thesis by (simp add: user_body_failed)
  next
    case (Inr resp)
    with l user_body_fetched_facts(7) [where env = env and st = st and resp = resp and w' = w']
    show ?thesis by simp
  qed
qed

lemma user_body_sum:
  assumes "migratedUsers st + failedUsers st = totalUsers st"
  shows "migratedUsers (user_body env st) + failedUsers (user_body env st)
         = totalUsers (user_body env st)"
proof -
  obtain r w' where l: "listUsers env limit (u_before st) (world (u_rt st)) = (r, w')"
    by (cases "listUsers env limit (u_before st) (world (u_rt st))")
  show ?thesis
  proof (cases r)
    case (Inl e)
    with l assms show ?thesis by (simp add: user_body_failed)
  next
    case (Inr resp)
    with l assms
      user_body_fetched_facts(1,5) [where env = env and st = st and resp = resp and w' = w']
    show ?thesis by simp
  qed
qed

lemma user_rounds_sum:
  "migratedUsers (iterations k user_running (user_body env) (user_init m rt))
   + failedUsers (iterations k user_running (user_body env) (user_init m rt))
   = totalUsers (iterations k user_running (user_body env) (user_init m rt))"
  by (rule iterations_invariant) (simp_all add: user_init_def user_body_sum)

lemma user_rounds_orgMap:
  "u_orgMap (iterations k user_running (user_body env) st) = u_orgMap st"
  by (rule iterations_invariant [where I = "\<lambda>t. u_orgMap t = u_orgMap st"])
     (simp_all add: user_body_orgMap)

lemma user_rounds_running:
  assumes "user_running (iterations k user_running (user_body env) (user_init m rt))"
  shows "totalUsers (iterations k user_running (user_body env) (user_init m rt)) = k * limit
       \<and> map length
           (user_pages (trace (u_rt (iterations k user_running (user_body env) (user_init m rt)))))
         = map length (user_pages (trace rt)) @ replicate k limit"
  using assms
proof (induction k)
  case 0
  then show ?case by (simp add: user_init_def)
next
  case (Suc k)
  let ?st = "iterations k user_running (user_body env) (user_init m rt)"
  from Suc.prems have run: "user_running ?st"
    by (rule iterations_running_before) simp
  then have step:
    "iterations (Suc k) user_running (user_body env) (user_init m rt) = user_body env ?st"
    by (simp add: iterations_Suc_end del: iterations.simps)
  from Suc.prems step have "user_running (user_body env ?st)" by simp
  then obtain resp w' where
    l: "listUsers env limit (u_before ?st) (world (u_rt ?st)) = (Inr resp, w')"
    and len: "length (data resp) = limit"
    using user_body_running by blast
  from Suc.IH run have ih: "totalUsers ?st = k * limit"
    "map length (user_pages (trace (u_rt ?st)))
       = map length (user_pages (trace rt)) @ replicate k limit"
    by simp_all
  have "totalUsers (user_body env ?st) = Suc k * limit"
    using user_body_fetched_facts(1) [OF l] ih(1) len by simp
  moreover have "map length (user_pages (trace (u_rt (user_body env ?st))))
         = map length (user_pages (trace rt)) @ replicate (Suc k) limit"
    using user_body_fetched_facts(6) [OF l] ih(2) len by (simp add: replicate_append_same)
  ultimately show ?case unfolding step by simp
qed

subsection \<open>Failures of single users\<close>

text \<open>
  The block of the OAuth account (lines 250-271) never throws: its \<^verbatim>\<open>catch\<close> only warns.
\<close>

lemma oauth_account_returns:
  "fst (oauth_account env u c rt) = Inr ()"
proof -
  let ?m = "bind (call (getConnection env (user_id u)) (GetConnection (user_id u)))
          (\<lambda>conn. case conn of
                     None \<Rightarrow> return ()
                   | Some cn \<Rightarrow>
                       bind (adapter_call env (oauth_request env c cn))
                         (\<lambda>_. return ()))"
  obtain r rt1 where m: "?m rt = (r, rt1)" by (cases "?m rt")
  show ?thesis
  proof (cases r)
    case (Inl e)
    with m show ?thesis
      by (simp add: oauth_account_def try_catch_def return_def)
  next
    case (Inr x)
    with m show ?thesis
      by (simp add: oauth_account_def try_catch_def)
  qed
qed

text \<open>The block of the memberships (lines 274-306) never throws either.\<close>

lemma organization_memberships_returns:
  "fst (organization_memberships env om u c rt) = Inr ()"
proof -
  let ?m = "bind (call (listOrganizationMemberships env (user_id u))
                (ListOrganizationMemberships (user_id u)))
          (\<lambda>membershipsResponse.
             case memberships membershipsResponse of
               None \<Rightarrow> return ()
             | Some ms \<Rightarrow> for_each (add_membership env om c) ms)"
  obtain r rt1 where m: "?m rt = (r, rt1)" by (cases "?m rt")
  show ?thesis
  proof (cases r)
    case (Inl e)
    with m show ?thesis
      by (simp add: organization_memberships_def try_catch_def return_def)
  next
    case (Inr x)
    with m show ?thesis
      by (simp add: organization_memberships_def try_catch_def)
  qed
qed

lemma bind_returns:
  "fst (m rt) = Inr x \<Longrightarrow> bind m f rt = f x (snd (m rt))"
  by (cases "m rt") (simp add: bind_def)

text \<open>
  What can make the body of the \<^verbatim>\<open>try\<close> of one user throw: the request of the factors,
  the user record, the credentials account and the two-factor records. The two blocks in
  between only move the world on.
\<close>

lemma migrate_user_steps:
  "migrate_user env om u rt =
     (case call (listAuthFactors env (user_id u)) (ListAuthFactors (user_id u)) rt of
        (Inl e, rt1) \<Rightarrow> (Inl e, rt1)
      | (Inr authFactorsResponse, rt1) \<Rightarrow>
          (case adapter_call env (user_request env u (data authFactorsResponse)) rt1 of
             (Inl e, rt2) \<Rightarrow> (Inl e, rt2)
           | (Inr createdUser, rt2) \<Rightarrow>
               (case credentials_account env u createdUser (data authFactorsResponse) rt2 of
                  (Inl e, rt3) \<Rightarrow> (Inl e, rt3)
                | (Inr x, rt3) \<Rightarrow>
                    for_each (two_factor env createdUser) (data authFactorsResponse)
                      (snd (organization_memberships env om u createdUser
                             (snd (oauth_account env u createdUser rt3)))))))"
proof -
  have b: "bind (oauth_account env u c)
             (\<lambda>_. bind (organization_memberships env om u c)
                     (\<lambda>_. for_each (two_factor env c) fs)) rt3
           = for_each (two_factor env c) fs
               (snd (organization_memberships env om u c (snd (oauth_account env u c rt3))))"
    for c fs rt3
    by (simp add: bind_returns [OF oauth_account_returns]
          bind_returns [OF organization_memberships_returns])
  obtain r1 rt1 where c1:
    "call (listAuthFactors env (user_id u)) (ListAuthFactors (user_id u)) rt = (r1, rt1)"
    by (cases "call (listAuthFactors env (user_id u)) (ListAuthFactors (user_id u)) rt")
  show ?thesis
  proof (cases r1)
    case (Inl e)
    with c1 show ?thesis
      unfolding migrate_user_def by (subst bind_def) simp
  next
    case r1: (Inr fs)
    obtain r2 rt2 where c2:
      "adapter_call env (user_request env u (data fs)) rt1 = (r2, rt2)"
      by (cases "adapter_call env (user_request env u (data fs)) rt1")
    show ?thesis
    proof (cases r2)
      case (Inl e)
      with c1 r1 c2 show ?thesis
        unfolding migrate_user_def
        by (subst bind_def, simp, subst bind_def, simp)
    next
      case r2: (Inr cu)
      obtain r3 rt3 where c3:
        "credentials_account env u cu (data fs) rt2 = (r3, rt3)"
        by (cases "credentials_account env u cu (data fs) rt2")
      show ?thesis
      proof (cases r3)
        case (Inl e)
        with c1 r1 c2 r2 c3 show ?thesis
          unfolding migrate_user_def
          by (subst bind_def, simp, subst bind_def, simp, subst bind_def, simp)
      next
        case (Inr x)
        with c1 r1 c2 r2 c3 show ?thesis
          unfolding migrate_user_def
          by (subst bind_def, simp, subst bind_def, simp, subst bind_def, simp add: b)
      qed
    qed
  qed
qed

text \<open>
  C6, as amended. Within a fetched page, an exception that leaves the body of the
  \<^verbatim>\<open>try\<close> of a user is caught at the user boundary: it adds one to the failure counter and
  nothing to the success counter, and the following users are still processed (the factors
  of every user of the page are requested, in order). Such an exception comes from the
  request of the factors, the user record, the credentials account or a two-factor record.
  An exception raised inside the block of the OAuth account (lines 250-271) or inside the
  block of the memberships (lines 274-306) is caught by that block, which always returns:
  it is not counted and the user goes on. Every user of the page adds one to exactly one of
  the two counters, so after any number of rounds the two counters add up to the users
  fetched.
\<close>

theorem user_failure_is_counted_once:
  "(case fst (migrate_user env (u_orgMap st) u (u_rt st)) of
      Inl e \<Rightarrow> failedUsers (user_step env u st) = failedUsers st + 1
               \<and> migratedUsers (user_step env u st) = migratedUsers st
    | Inr x \<Rightarrow> migratedUsers (user_step env u st) = migratedUsers st + 1
               \<and> failedUsers (user_step env u st) = failedUsers st)
   \<and> fst (oauth_account env u c rt) = Inr ()
   \<and> fst (organization_memberships env om u c rt) = Inr ()
   \<and> migrate_user env om u rt =
       (case call (listAuthFactors env (user_id u)) (ListAuthFactors (user_id u)) rt of
          (Inl e, rt1) \<Rightarrow> (Inl e, rt1)
        | (Inr authFactorsResponse, rt1) \<Rightarrow>
            (case adapter_call env (user_request env u (data authFactorsResponse)) rt1 of
               (Inl e, rt2) \<Rightarrow> (Inl e, rt2)
             | (Inr createdUser, rt2) \<Rightarrow>
                 (case credentials_account env u createdUser (data authFactorsResponse) rt2 of
                    (Inl e, rt3) \<Rightarrow> (Inl e, rt3)
                  | (Inr x, rt3) \<Rightarrow>
                      for_each (two_factor env createdUser) (data authFactorsResponse)
                        (snd (organization_memberships env om u createdUser
                               (snd (oauth_account env u createdUser rt3)))))))
   \<and> fold (user_step env) (before_u @ u # after_u) st =
       fold (user_step env) after_u (user_step env u (fold (user_step env) before_u st))
   \<and> factor_requests (trace (u_rt (fold (user_step env) users st))) =
       factor_requests (trace (u_rt st)) @ map user_id users
   \<and> migratedUsers (fold (user_step env) users st) + failedUsers (fold (user_step env) users st) =
       migratedUsers st + failedUsers st + length users
   \<and> migratedUsers st \<le> migratedUsers (fold (user_step env) users st)
   \<and> failedUsers st \<le> failedUsers (fold (user_step env) users st)
   \<and> totalUsers (fold (user_step env) users st) = totalUsers st
   \<and> u_broke (fold (user_step env) users st) = u_broke st
   \<and> migratedUsers (iterations k user_running (user_body env) (user_init m rt0))
       + failedUsers (iterations k user_running (user_body env) (user_init m rt0))
       = totalUsers (iterations k user_running (user_body env) (user_init m rt0))"
proof -
  from fold_user_step_events [where env = env and us = users and st = st] obtain evs where
    "trace (u_rt (fold (user_step env) users st)) = trace (u_rt st) @ evs"
    and "users_events env users evs"
    by blast
  then have "factor_requests (trace (u_rt (fold (user_step env) users st))) =
       factor_requests (trace (u_rt st)) @ map user_id users"
    by (simp add: users_events_factor_requests)
  moreover have "fold (user_step env) (before_u @ u # after_u) st =
       fold (user_step env) after_u (user_step env u (fold (user_step env) before_u st))"
    by simp
  moreover note migrate_user_steps [of env om u rt]
  ultimately show ?thesis
    using user_step_counters [where env = env and u = u and st = st]
      fold_user_step_sum [where env = env and us = users and st = st]
      fold_user_step_mono [where env = env and us = users and st = st]
      fold_user_step_frame(2,5) [where env = env and us = users and st = st]
      user_rounds_sum [where env = env and k = k and m = m and rt = rt0]
      oauth_account_returns [of env u c rt]
      organization_memberships_returns [of env om u c rt]
    by simp
qed

theorem user_failure_is_counted_once_witness:
  "fst (migrate_user demo_env Map.empty (demo_users ! 1) \<lparr>world = 0, trace = []\<rparr>)
     = Inl (Rejected ''duplicate key'')
   \<and> failedUsers (user_step demo_env (demo_users ! 1)
                    (user_init Map.empty \<lparr>world = 0, trace = []\<rparr>)) = 1
   \<and> migratedUsers (user_step demo_env (demo_users ! 1)
                      (user_init Map.empty \<lparr>world = 0, trace = []\<rparr>)) = 0
   \<and> fst (migrate_user demo_env demo_org_map (demo_users ! 0) \<lparr>world = 0, trace = []\<rparr>)
       = Inr ()
   \<and> failedUsers (user_step demo_env (demo_users ! 0)
                    (user_init demo_org_map \<lparr>world = 0, trace = []\<rparr>)) = 0
   \<and> migratedUsers (user_step demo_env (demo_users ! 0)
                      (user_init demo_org_map \<lparr>world = 0, trace = []\<rparr>)) = 1
   \<and> getConnection demo_env (user_id (demo_users ! 0)) 2 = (Inl (Rejected ''not found''), 3)
   \<and> fst (oauth_account demo_env (demo_users ! 0) \<lparr>created_id = ''user_1''\<rparr>
            \<lparr>world = 2, trace = []\<rparr>) = Inr ()
   \<and> getOrganization demo_env_lookup_fails ''org_1'' 4 = (Inl (Rejected ''timeout''), 5)
   \<and> fst (organization_memberships demo_env_lookup_fails demo_org_map (demo_users ! 0)
            \<lparr>created_id = ''user_1''\<rparr> \<lparr>world = 3, trace = []\<rparr>) = Inr ()
   \<and> factor_requests (trace (u_rt (fold (user_step demo_env) (rev demo_users)
                      (user_init Map.empty \<lparr>world = 0, trace = []\<rparr>))))
       = [''user_2'', ''user_1'']
   \<and> failedUsers (fold (user_step demo_env) (rev demo_users)
                    (user_init Map.empty \<lparr>world = 0, trace = []\<rparr>)) = 1
   \<and> migratedUsers (fold (user_step demo_env) (rev demo_users)
                      (user_init Map.empty \<lparr>world = 0, trace = []\<rparr>)) = 1"
proof -
  let ?rt = "\<lparr>world = 0, trace = []\<rparr> :: nat rt"
  let ?st = "user_init Map.empty ?rt :: nat user_state"
  let ?st1 = "user_init demo_org_map ?rt :: nat user_state"
  have f: "fst (migrate_user demo_env (u_orgMap ?st) (demo_users ! 1) (u_rt ?st))
             = Inl (Rejected ''duplicate key'')"
    by code_simp
  have f1: "fst (migrate_user demo_env (u_orgMap ?st1) (demo_users ! 0) (u_rt ?st1)) = Inr ()"
    by code_simp
  have st: "u_orgMap ?st = Map.empty" "u_rt ?st = ?rt"
    "failedUsers ?st = 0" "migratedUsers ?st = 0"
    by (simp_all add: user_init_def)
  have st1: "u_orgMap ?st1 = demo_org_map" "u_rt ?st1 = ?rt"
    "failedUsers ?st1 = 0" "migratedUsers ?st1 = 0"
    by (simp_all add: user_init_def)
  have fl: "failedUsers (fold (user_step demo_env) (rev demo_users) ?st) = 1"
    by code_simp
  have us: "map user_id (rev demo_users) = [''user_2'', ''user_1'']"
    by (simp add: demo_users_def)
  have g: "getConnection demo_env (user_id (demo_users ! 0)) 2 = (Inl (Rejected ''not found''), 3)"
    "getOrganization demo_env_lookup_fails ''org_1'' 4 = (Inl (Rejected ''timeout''), 5)"
    by (simp_all add: demo_env_def demo_env_lookup_fails_def)
  note t = user_failure_is_counted_once [where env = demo_env and st = ?st
      and u = "demo_users ! 1" and users = "rev demo_users"]
  note t1 = user_failure_is_counted_once [where env = demo_env and st = ?st1
      and u = "demo_users ! 0" and c = "\<lparr>created_id = ''user_1''\<rparr>"
      and rt = "\<lparr>world = 2, trace = []\<rparr>"]
  note t2 = user_failure_is_counted_once [where env = demo_env_lookup_fails
      and u = "demo_users ! 0" and c = "\<lparr>created_id = ''user_1''\<rparr>"
      and om = demo_org_map and rt = "\<lparr>world = 3, trace = []\<rparr>"]
  note rest = t [THEN conjunct2, THEN conjunct2, THEN conjunct2, THEN conjunct2]
  from t [THEN conjunct1] f have a: "failedUsers (user_step demo_env (demo_users ! 1) ?st) = 1"
    "migratedUsers (user_step demo_env (demo_users ! 1) ?st) = 0"
    by (simp_all add: st)
  from t1 [THEN conjunct1] f1 have a1: "failedUsers (user_step demo_env (demo_users ! 0) ?st1) = 0"
    "migratedUsers (user_step demo_env (demo_users ! 0) ?st1) = 1"
    by (simp_all add: st1)
  from t1 [THEN conjunct2, THEN conjunct1]
  have o: "fst (oauth_account demo_env (demo_users ! 0) \<lparr>created_id = ''user_1''\<rparr>
            \<lparr>world = 2, trace = []\<rparr>) = Inr ()" .
  from t2 [THEN conjunct2, THEN conjunct2, THEN conjunct1]
  have o2: "fst (organization_memberships demo_env_lookup_fails demo_org_map
            (demo_users ! 0) \<lparr>created_id = ''user_1''\<rparr> \<lparr>world = 3, trace = []\<rparr>) = Inr ()" .
  from rest have b: "factor_requests (trace (u_rt (fold (user_step demo_env) (rev demo_users) ?st)))
       = [''user_2'', ''user_1'']"
    by (simp add: st us)
  from rest have "migratedUsers (fold (user_step demo_env) (rev demo_users) ?st)
       + failedUsers (fold (user_step demo_env) (rev demo_users) ?st) = 2"
    by (simp add: st demo_users_def)
  with fl have c: "migratedUsers (fold (user_step demo_env) (rev demo_users) ?st) = 1"
    by simp
  from f f1 have f': "fst (migrate_user demo_env Map.empty (demo_users ! 1) ?rt)
     = Inl (Rejected ''duplicate key'')"
    "fst (migrate_user demo_env demo_org_map (demo_users ! 0) ?rt) = Inr ()"
    by (simp_all add: st st1)
  from f' a a1 g o o2 b fl c show ?thesis by (intro conjI)
qed

text \<open>
  The claim as stated fails: an exception raised while a user is processed need not be
  counted. In the example world the lookup of the connection of the first user throws; the
  failure counter stays at 0 and the user is counted as migrated. When the lookup of the
  organization throws as well, two exceptions are raised for that user and none is counted.
  In the whole run two exceptions are raised and one failure is counted.
\<close>

theorem swallowed_exception_is_not_counted_counterexample:
  "exceptions (trace (u_rt (user_step demo_env (demo_users ! 0)
                              (user_init demo_org_map \<lparr>world = 0, trace = []\<rparr>))))
     = [Rejected ''not found'']
   \<and> failedUsers (user_step demo_env (demo_users ! 0)
                    (user_init demo_org_map \<lparr>world = 0, trace = []\<rparr>)) = 0
   \<and> migratedUsers (user_step demo_env (demo_users ! 0)
                      (user_init demo_org_map \<lparr>world = 0, trace = []\<rparr>)) = 1
   \<and> exceptions (trace (u_rt (user_step demo_env_lookup_fails (demo_users ! 0)
                                (user_init demo_org_map \<lparr>world = 0, trace = []\<rparr>))))
       = [Rejected ''not found'', Rejected ''timeout'']
   \<and> failedUsers (user_step demo_env_lookup_fails (demo_users ! 0)
                    (user_init demo_org_map \<lparr>world = 0, trace = []\<rparr>)) = 0
   \<and> migratedUsers (user_step demo_env_lookup_fails (demo_users ! 0)
                      (user_init demo_org_map \<lparr>world = 0, trace = []\<rparr>)) = 1
   \<and> map_option (\<lambda>r. (totalUsers r, migratedUsers r, failedUsers r,
                       exceptions (trace (u_rt r))))
        (migrateFromWorkOS 1 demo_env 0)
       = Some (2, 1, 1, [Rejected ''not found'', Rejected ''duplicate key''])"
proof -
  let ?st = "user_init demo_org_map \<lparr>world = 0, trace = []\<rparr> :: nat user_state"
  have a: "exceptions (trace (u_rt (user_step demo_env (demo_users ! 0) ?st)))
     = [Rejected ''not found'']"
    by code_simp
  have b: "failedUsers (user_step demo_env (demo_users ! 0) ?st) = 0"
    by code_simp
  have c: "migratedUsers (user_step demo_env (demo_users ! 0) ?st) = 1"
    by code_simp
  have d: "exceptions (trace (u_rt (user_step demo_env_lookup_fails (demo_users ! 0) ?st)))
       = [Rejected ''not found'', Rejected ''timeout'']"
    by code_simp
  have e: "failedUsers (user_step demo_env_lookup_fails (demo_users ! 0) ?st) = 0"
    by code_simp
  have f: "migratedUsers (user_step demo_env_lookup_fails (demo_users ! 0) ?st) = 1"
    by code_simp
  have g: "map_option (\<lambda>r. (totalUsers r, migratedUsers r, failedUsers r,
                       exceptions (trace (u_rt r))))
        (migrateFromWorkOS 1 demo_env 0)
       = Some (2, 1, 1, [Rejected ''not found'', Rejected ''duplicate key''])"
    by code_simp
  from a b c d e f g show ?thesis by (intro conjI)
qed

subsection \<open>Pagination\<close>

lemma org_loop_short_page:
  assumes st: "st = iterations k org_running (org_body env) (org_init rt)"
    and run: "org_running st"
    and l: "listOrganizations env limit (o_before st) (world (o_rt st)) = (Inr resp, w')"
    and short: "length (data resp) < limit"
  shows "(\<forall>n. Suc k \<le> n \<longrightarrow> org_loop n env rt = Some (org_body env st))
       \<and> (\<forall>n. n \<le> k \<longrightarrow> org_loop n env rt = None)
       \<and> \<not> o_broke (org_body env st) \<and> \<not> hasMoreOrgs (org_body env st)
       \<and> map length (org_pages (trace (o_rt (org_body env st))))
           = map length (org_pages (trace rt)) @ replicate k limit @ [length (data resp)]
       \<and> totalOrgs (org_body env st) = k * limit + length (data resp)
       \<and> migratedOrgs (org_body env st) + failedOrgs (org_body env st)
           = totalOrgs (org_body env st)"
proof -
  have step: "iterations (Suc k) org_running (org_body env) (org_init rt) = org_body env st"
    using run unfolding st by (simp add: iterations_Suc_end del: iterations.simps)
  have more: "\<not> hasMoreOrgs (org_body env st)"
    using org_body_fetched_facts(2) [OF l] short by simp
  then have stop: "\<not> org_running (iterations (Suc k) org_running (org_body env) (org_init rt))"
    unfolding step by (simp add: org_running_def)
  have a: "\<forall>n. Suc k \<le> n \<longrightarrow> org_loop n env rt = Some (org_body env st)"
    using while_fuel_enough [where b = org_running and c = "org_body env" and s = "org_init rt"
        and n = "Suc k"] stop
    unfolding step org_loop_def by blast
  have b: "\<forall>n. n \<le> k \<longrightarrow> org_loop n env rt = None"
    using while_fuel_short [where b = org_running and c = "org_body env" and s = "org_init rt"
        and n = k] run
    unfolding st org_loop_def by blast
  have c: "\<not> o_broke (org_body env st)"
    using org_body_fetched_facts(3) [OF l] run by (simp add: org_running_def)
  from org_rounds_running [where env = env and k = k and rt = rt] run
  have tot: "totalOrgs st = k * limit"
    and pg: "map length (org_pages (trace (o_rt st))) = map length (org_pages (trace rt)) @ replicate k limit"
    unfolding st by simp_all
  have d: "map length (org_pages (trace (o_rt (org_body env st))))
           = map length (org_pages (trace rt)) @ replicate k limit @ [length (data resp)]"
    using org_body_fetched_facts(6) [OF l] pg by simp
  have e: "totalOrgs (org_body env st) = k * limit + length (data resp)"
    using org_body_fetched_facts(1) [OF l] tot by simp
  have f: "migratedOrgs (org_body env st) + failedOrgs (org_body env st)
           = totalOrgs (org_body env st)"
    using org_rounds_sum [where env = env and k = "Suc k" and rt = rt] unfolding step .
  from a b c more d e f show ?thesis by blast
qed

lemma user_loop_short_page:
  assumes st: "st = iterations k user_running (user_body env) (user_init m rt)"
    and run: "user_running st"
    and l: "listUsers env limit (u_before st) (world (u_rt st)) = (Inr resp, w')"
    and short: "length (data resp) < limit"
  shows "(\<forall>n. Suc k \<le> n \<longrightarrow> user_loop n env m rt = Some (user_body env st))
       \<and> (\<forall>n. n \<le> k \<longrightarrow> user_loop n env m rt = None)
       \<and> \<not> u_broke (user_body env st) \<and> \<not> hasMoreUsers (user_body env st)
       \<and> map length (user_pages (trace (u_rt (user_body env st))))
           = map length (user_pages (trace rt)) @ replicate k limit @ [length (data resp)]
       \<and> totalUsers (user_body env st) = k * limit + length (data resp)
       \<and> migratedUsers (user_body env st) + failedUsers (user_body env st)
           = totalUsers (user_body env st)"
proof -
  have step: "iterations (Suc k) user_running (user_body env) (user_init m rt) = user_body env st"
    using run unfolding st by (simp add: iterations_Suc_end del: iterations.simps)
  have more: "\<not> hasMoreUsers (user_body env st)"
    using user_body_fetched_facts(2) [OF l] short by simp
  then have stop:
    "\<not> user_running (iterations (Suc k) user_running (user_body env) (user_init m rt))"
    unfolding step by (simp add: user_running_def)
  have a: "\<forall>n. Suc k \<le> n \<longrightarrow> user_loop n env m rt = Some (user_body env st)"
    using while_fuel_enough [where b = user_running and c = "user_body env"
        and s = "user_init m rt" and n = "Suc k"] stop
    unfolding step user_loop_def by blast
  have b: "\<forall>n. n \<le> k \<longrightarrow> user_loop n env m rt = None"
    using while_fuel_short [where b = user_running and c = "user_body env"
        and s = "user_init m rt" and n = k] run
    unfolding st user_loop_def by blast
  have c: "\<not> u_broke (user_body env st)"
    using user_body_fetched_facts(3) [OF l] run by (simp add: user_running_def)
  from user_rounds_running [where env = env and k = k and rt = rt and m = m] run
  have tot: "totalUsers st = k * limit"
    and pg: "map length (user_pages (trace (u_rt st)))
             = map length (user_pages (trace rt)) @ replicate k limit"
    unfolding st by simp_all
  have d: "map length (user_pages (trace (u_rt (user_body env st))))
           = map length (user_pages (trace rt)) @ replicate k limit @ [length (data resp)]"
    using user_body_fetched_facts(6) [OF l] pg by simp
  have e: "totalUsers (user_body env st) = k * limit + length (data resp)"
    using user_body_fetched_facts(1) [OF l] tot by simp
  have f: "migratedUsers (user_body env st) + failedUsers (user_body env st)
           = totalUsers (user_body env st)"
    using user_rounds_sum [where env = env and k = "Suc k" and rt = rt and m = m]
    unfolding step .
  from a b c more d e f show ?thesis by blast
qed

text \<open>
  C2. For both pagination loops: when, in a run, the source returns a page shorter than the
  page size of 100 (after \<open>k\<close> rounds the loop is still running and the next page is short),
  the loop ends with that page, after exactly \<open>k + 1\<close> rounds: every earlier page was full,
  no fetch failed, and the records counted, which are the records processed, lie between
  \<open>(pages - 1) * 100\<close> and \<open>pages * 100\<close>.
\<close>

theorem pagination_stops_at_short_page:
  "(st = iterations k org_running (org_body env) (org_init rt)
    \<and> org_running st
    \<and> listOrganizations env limit (o_before st) (world (o_rt st)) = (Inr resp, w')
    \<and> length (data resp) < limit
    \<longrightarrow> (\<exists>r. (\<forall>n. Suc k \<le> n \<longrightarrow> org_loop n env rt = Some r)
            \<and> (\<forall>n. n \<le> k \<longrightarrow> org_loop n env rt = None)
            \<and> \<not> o_broke r \<and> \<not> hasMoreOrgs r
            \<and> map length (org_pages (trace (o_rt r)))
                = map length (org_pages (trace rt)) @ replicate k 100 @ [length (data resp)]
            \<and> totalOrgs r = k * 100 + length (data resp)
            \<and> totalOrgs r \<le> (k + 1) * 100
            \<and> (k + 1 - 1) * 100 \<le> totalOrgs r
            \<and> migratedOrgs r + failedOrgs r = totalOrgs r))
   \<and> (ust = iterations j user_running (user_body env) (user_init m urt)
    \<and> user_running ust
    \<and> listUsers env limit (u_before ust) (world (u_rt ust)) = (Inr uresp, uw')
    \<and> length (data uresp) < limit
    \<longrightarrow> (\<exists>r. (\<forall>n. Suc j \<le> n \<longrightarrow> user_loop n env m urt = Some r)
            \<and> (\<forall>n. n \<le> j \<longrightarrow> user_loop n env m urt = None)
            \<and> \<not> u_broke r \<and> \<not> hasMoreUsers r
            \<and> map length (user_pages (trace (u_rt r)))
                = map length (user_pages (trace urt)) @ replicate j 100 @ [length (data uresp)]
            \<and> totalUsers r = j * 100 + length (data uresp)
            \<and> totalUsers r \<le> (j + 1) * 100
            \<and> (j + 1 - 1) * 100 \<le> totalUsers r
            \<and> migratedUsers r + failedUsers r = totalUsers r))"
proof (intro conjI impI)
  assume a: "st = iterations k org_running (org_body env) (org_init rt)
    \<and> org_running st
    \<and> listOrganizations env limit (o_before st) (world (o_rt st)) = (Inr resp, w')
    \<and> length (data resp) < limit"
  then have short: "length (data resp) < 100" by (simp add: limit_def)
  from a org_loop_short_page [of st k env rt resp w']
  have f: "(\<forall>n. Suc k \<le> n \<longrightarrow> org_loop n env rt = Some (org_body env st))
       \<and> (\<forall>n. n \<le> k \<longrightarrow> org_loop n env rt = None)
       \<and> \<not> o_broke (org_body env st) \<and> \<not> hasMoreOrgs (org_body env st)
       \<and> map length (org_pages (trace (o_rt (org_body env st))))
           = map length (org_pages (trace rt)) @ replicate k 100 @ [length (data resp)]
       \<and> totalOrgs (org_body env st) = k * 100 + length (data resp)
       \<and> migratedOrgs (org_body env st) + failedOrgs (org_body env st)
           = totalOrgs (org_body env st)"
    unfolding limit_def by blast
  then have "totalOrgs (org_body env st) \<le> (k + 1) * 100
      \<and> (k + 1 - 1) * 100 \<le> totalOrgs (org_body env st)"
    using short by simp
  with f show "\<exists>r. (\<forall>n. Suc k \<le> n \<longrightarrow> org_loop n env rt = Some r)
            \<and> (\<forall>n. n \<le> k \<longrightarrow> org_loop n env rt = None)
            \<and> \<not> o_broke r \<and> \<not> hasMoreOrgs r
            \<and> map length (org_pages (trace (o_rt r)))
                = map length (org_pages (trace rt)) @ replicate k 100 @ [length (data resp)]
            \<and> totalOrgs r = k * 100 + length (data resp)
            \<and> totalOrgs r \<le> (k + 1) * 100
            \<and> (k + 1 - 1) * 100 \<le> totalOrgs r
            \<and> migratedOrgs r + failedOrgs r = totalOrgs r"
    by blast
next
  assume a: "ust = iterations j user_running (user_body env) (user_init m urt)
    \<and> user_running ust
    \<and> listUsers env limit (u_before ust) (world (u_rt ust)) = (Inr uresp, uw')
    \<and> length (data uresp) < limit"
  then have short: "length (data uresp) < 100" by (simp add: limit_def)
  from a user_loop_short_page [of ust j env m urt uresp uw']
  have f: "(\<forall>n. Suc j \<le> n \<longrightarrow> user_loop n env m urt = Some (user_body env ust))
       \<and> (\<forall>n. n \<le> j \<longrightarrow> user_loop n env m urt = None)
       \<and> \<not> u_broke (user_body env ust) \<and> \<not> hasMoreUsers (user_body env ust)
       \<and> map length (user_pages (trace (u_rt (user_body env ust))))
           = map length (user_pages (trace urt)) @ replicate j 100 @ [length (data uresp)]
       \<and> totalUsers (user_body env ust) = j * 100 + length (data uresp)
       \<and> migratedUsers (user_body env ust) + failedUsers (user_body env ust)
           = totalUsers (user_body env ust)"
    unfolding limit_def by blast
  then have "totalUsers (user_body env ust) \<le> (j + 1) * 100
      \<and> (j + 1 - 1) * 100 \<le> totalUsers (user_body env ust)"
    using short by simp
  with f show "\<exists>r. (\<forall>n. Suc j \<le> n \<longrightarrow> user_loop n env m urt = Some r)
            \<and> (\<forall>n. n \<le> j \<longrightarrow> user_loop n env m urt = None)
            \<and> \<not> u_broke r \<and> \<not> hasMoreUsers r
            \<and> map length (user_pages (trace (u_rt r)))
                = map length (user_pages (trace urt)) @ replicate j 100 @ [length (data uresp)]
            \<and> totalUsers r = j * 100 + length (data uresp)
            \<and> totalUsers r \<le> (j + 1) * 100
            \<and> (j + 1 - 1) * 100 \<le> totalUsers r
            \<and> migratedUsers r + failedUsers r = totalUsers r"
    by blast
qed

lemma paged_env_calls:
  "listOrganizations paged_env lim None w =
     (Inr \<lparr>data = replicate 100 (demo_orgs ! 0),
           listMetadata = Some \<lparr>before = Some ''cursor_1'', after = None\<rparr>\<rparr>, Suc w)"
  "listOrganizations paged_env lim (Some c) w =
     (Inr \<lparr>data = demo_orgs, listMetadata = None\<rparr>, Suc w)"
  "listUsers paged_env lim None w =
     (Inr \<lparr>data = replicate 100 (demo_users ! 1),
           listMetadata = Some \<lparr>before = Some ''cursor_1'', after = None\<rparr>\<rparr>, Suc w)"
  "listUsers paged_env lim (Some c) w =
     (Inr \<lparr>data = demo_users, listMetadata = None\<rparr>, Suc w)"
  by (simp_all add: paged_env_def)

theorem pagination_stops_at_short_page_witness:
  "org_loop 1 paged_env \<lparr>world = 0, trace = []\<rparr> = None
   \<and> (\<exists>r. org_loop 2 paged_env \<lparr>world = 0, trace = []\<rparr> = Some r
          \<and> \<not> o_broke r
          \<and> map length (org_pages (trace (o_rt r))) = [100, 2]
          \<and> totalOrgs r = 102 \<and> migratedOrgs r + failedOrgs r = 102)
   \<and> user_loop 1 paged_env Map.empty \<lparr>world = 0, trace = []\<rparr> = None
   \<and> (\<exists>r. user_loop 2 paged_env Map.empty \<lparr>world = 0, trace = []\<rparr> = Some r
          \<and> \<not> u_broke r
          \<and> map length (user_pages (trace (u_rt r))) = [100, 2]
          \<and> totalUsers r = 102 \<and> migratedUsers r + failedUsers r = 102)"
proof -
  let ?rt = "\<lparr>world = 0, trace = []\<rparr> :: nat rt"
  let ?o0 = "org_init ?rt"
  let ?o1 = "org_body paged_env ?o0"
  let ?u0 = "user_init Map.empty ?rt :: nat user_state"
  let ?u1 = "user_body paged_env ?u0"
  let ?opage = "\<lparr>data = replicate 100 (demo_orgs ! 0),
           listMetadata = Some \<lparr>before = Some ''cursor_1'', after = None\<rparr>\<rparr>"
  let ?upage = "\<lparr>data = replicate 100 (demo_users ! 1),
           listMetadata = Some \<lparr>before = Some ''cursor_1'', after = None\<rparr>\<rparr>"
  have o0: "org_running ?o0" "o_before ?o0 = None" "\<not> o_broke ?o0"
    by (simp_all add: org_init_def org_running_def)
  have u0: "user_running ?u0" "u_before ?u0 = None" "\<not> u_broke ?u0"
    by (simp_all add: user_init_def user_running_def)
  have ol: "listOrganizations paged_env limit (o_before ?o0) (world (o_rt ?o0))
              = (Inr ?opage, Suc (world (o_rt ?o0)))"
    by (simp add: o0 paged_env_calls)
  have ul: "listUsers paged_env limit (u_before ?u0) (world (u_rt ?u0))
              = (Inr ?upage, Suc (world (u_rt ?u0)))"
    by (simp add: u0 paged_env_calls)
  have o1: "org_running ?o1" "o_before ?o1 = Some ''cursor_1''"
    using org_body_fetched_facts(2,3,4) [OF ol] o0
    by (simp_all add: org_running_def limit_def next_before_def)
  have u1: "user_running ?u1" "u_before ?u1 = Some ''cursor_1''"
    using user_body_fetched_facts(2,3,4) [OF ul] u0
    by (simp_all add: user_running_def limit_def next_before_def)
  have oi: "?o1 = iterations 1 org_running (org_body paged_env) ?o0"
    using o0 by simp
  have ui: "?u1 = iterations 1 user_running (user_body paged_env) ?u0"
    using u0 by simp
  have ol2: "listOrganizations paged_env limit (o_before ?o1) (world (o_rt ?o1))
              = (Inr \<lparr>data = demo_orgs, listMetadata = None\<rparr>, Suc (world (o_rt ?o1)))"
    by (simp add: o1 paged_env_calls)
  have ul2: "listUsers paged_env limit (u_before ?u1) (world (u_rt ?u1))
              = (Inr \<lparr>data = demo_users, listMetadata = None\<rparr>, Suc (world (u_rt ?u1)))"
    by (simp add: u1 paged_env_calls)
  have len: "length (data \<lparr>data = demo_orgs, listMetadata = None\<rparr>) < limit"
    "length (data \<lparr>data = demo_users, listMetadata = None\<rparr>) < limit"
    by (simp_all add: demo_orgs_def demo_users_def limit_def)
  note t = pagination_stops_at_short_page [where env = paged_env
      and st = ?o1 and k = 1 and rt = ?rt
      and resp = "\<lparr>data = demo_orgs, listMetadata = None\<rparr>"
      and w' = "Suc (world (o_rt ?o1))"
      and ust = ?u1 and j = 1 and m = Map.empty and urt = ?rt
      and uresp = "\<lparr>data = demo_users, listMetadata = None\<rparr>"
      and uw' = "Suc (world (u_rt ?u1))"]
  have oh: "?o1 = iterations 1 org_running (org_body paged_env) ?o0
    \<and> org_running ?o1
    \<and> listOrganizations paged_env limit (o_before ?o1) (world (o_rt ?o1))
        = (Inr \<lparr>data = demo_orgs, listMetadata = None\<rparr>, Suc (world (o_rt ?o1)))
    \<and> length (data \<lparr>data = demo_orgs, listMetadata = None\<rparr>) < limit"
    using oi o1(1) ol2 len(1) by (intro conjI)
  have uh: "?u1 = iterations 1 user_running (user_body paged_env) ?u0
    \<and> user_running ?u1
    \<and> listUsers paged_env limit (u_before ?u1) (world (u_rt ?u1))
        = (Inr \<lparr>data = demo_users, listMetadata = None\<rparr>, Suc (world (u_rt ?u1)))
    \<and> length (data \<lparr>data = demo_users, listMetadata = None\<rparr>) < limit"
    using ui u1(1) ul2 len(2) by (intro conjI)
  from t [THEN conjunct1, THEN mp, OF oh] obtain r where
    r: "\<forall>n. Suc 1 \<le> n \<longrightarrow> org_loop n paged_env ?rt = Some r"
       "\<forall>n. n \<le> 1 \<longrightarrow> org_loop n paged_env ?rt = None"
       "\<not> o_broke r"
       "map length (org_pages (trace (o_rt r)))
          = map length (org_pages (trace ?rt)) @ replicate 1 100 @ [length (data \<lparr>data = demo_orgs, listMetadata = None\<rparr>)]"
       "totalOrgs r = 1 * 100 + length (data \<lparr>data = demo_orgs, listMetadata = None\<rparr>)"
       "migratedOrgs r + failedOrgs r = totalOrgs r"
    by (elim exE conjE)
  from t [THEN conjunct2, THEN mp, OF uh] obtain ur where
    ur: "\<forall>n. Suc 1 \<le> n \<longrightarrow> user_loop n paged_env Map.empty ?rt = Some ur"
       "\<forall>n. n \<le> 1 \<longrightarrow> user_loop n paged_env Map.empty ?rt = None"
       "\<not> u_broke ur"
       "map length (user_pages (trace (u_rt ur)))
          = map length (user_pages (trace ?rt)) @ replicate 1 100 @ [length (data \<lparr>data = demo_users, listMetadata = None\<rparr>)]"
       "totalUsers ur = 1 * 100 + length (data \<lparr>data = demo_users, listMetadata = None\<rparr>)"
       "migratedUsers ur + failedUsers ur = totalUsers ur"
    by (elim exE conjE)
  from r(1) have r2: "org_loop 2 paged_env ?rt = Some r" by simp
  from r(2) have r1: "org_loop 1 paged_env ?rt = None" by simp
  from ur(1) have ur2: "user_loop 2 paged_env Map.empty ?rt = Some ur" by simp
  from ur(2) have ur1: "user_loop 1 paged_env Map.empty ?rt = None" by simp
  have "\<not> o_broke r
          \<and> map length (org_pages (trace (o_rt r))) = [100, 2]
          \<and> totalOrgs r = 102 \<and> migratedOrgs r + failedOrgs r = 102"
    using r(3,4,5,6) by (simp add: demo_orgs_def)
  moreover have "\<not> u_broke ur
          \<and> map length (user_pages (trace (u_rt ur))) = [100, 2]
          \<and> totalUsers ur = 102 \<and> migratedUsers ur + failedUsers ur = 102"
    using ur(3,4,5,6) by (simp add: demo_users_def)
  ultimately show ?thesis using r1 r2 ur1 ur2 by (intro conjI exI [of _ r] exI [of _ ur]) simp_all
qed

subsection \<open>Failure to fetch a page\<close>

lemma org_loop_fetch_failed:
  assumes st: "st = iterations k org_running (org_body env) (org_init rt)"
    and run: "org_running st"
    and l: "listOrganizations env limit (o_before st) (world (o_rt st)) = (Inl e, w')"
  shows "(\<forall>n. Suc k \<le> n \<longrightarrow> org_loop n env rt = Some (org_body env st))
       \<and> (\<forall>n. n \<le> k \<longrightarrow> org_loop n env rt = None)"
proof -
  have step: "iterations (Suc k) org_running (org_body env) (org_init rt) = org_body env st"
    using run unfolding st by (simp add: iterations_Suc_end del: iterations.simps)
  have stop: "\<not> org_running (iterations (Suc k) org_running (org_body env) (org_init rt))"
    unfolding step by (simp add: org_body_failed [OF l] org_running_def)
  have a: "\<forall>n. Suc k \<le> n \<longrightarrow> org_loop n env rt = Some (org_body env st)"
    using while_fuel_enough [where b = org_running and c = "org_body env" and s = "org_init rt"
        and n = "Suc k"] stop
    unfolding step org_loop_def by blast
  have b: "\<forall>n. n \<le> k \<longrightarrow> org_loop n env rt = None"
    using while_fuel_short [where b = org_running and c = "org_body env" and s = "org_init rt"
        and n = k] run
    unfolding st org_loop_def by blast
  from a b show ?thesis by blast
qed

lemma user_loop_fetch_failed:
  assumes st: "st = iterations k user_running (user_body env) (user_init m rt)"
    and run: "user_running st"
    and l: "listUsers env limit (u_before st) (world (u_rt st)) = (Inl e, w')"
  shows "(\<forall>n. Suc k \<le> n \<longrightarrow> user_loop n env m rt = Some (user_body env st))
       \<and> (\<forall>n. n \<le> k \<longrightarrow> user_loop n env m rt = None)"
proof -
  have step: "iterations (Suc k) user_running (user_body env) (user_init m rt) = user_body env st"
    using run unfolding st by (simp add: iterations_Suc_end del: iterations.simps)
  have stop:
    "\<not> user_running (iterations (Suc k) user_running (user_body env) (user_init m rt))"
    unfolding step by (simp add: user_body_failed [OF l] user_running_def)
  have a: "\<forall>n. Suc k \<le> n \<longrightarrow> user_loop n env m rt = Some (user_body env st)"
    using while_fuel_enough [where b = user_running and c = "user_body env"
        and s = "user_init m rt" and n = "Suc k"] stop
    unfolding step user_loop_def by blast
  have b: "\<forall>n. n \<le> k \<longrightarrow> user_loop n env m rt = None"
    using while_fuel_short [where b = user_running and c = "user_body env"
        and s = "user_init m rt" and n = k] run
    unfolding st user_loop_def by blast
  from a b show ?thesis by blast
qed

lemma user_phase_starts_with_fetch:
  "\<exists>r evs. trace (u_rt (user_body env (user_init m rt))) = trace rt @ ListUsers limit None r # evs"
proof -
  let ?st = "user_init m rt"
  obtain r w' where l: "listUsers env limit (u_before ?st) (world (u_rt ?st)) = (r, w')"
    by (cases "listUsers env limit (u_before ?st) (world (u_rt ?st))")
  show ?thesis
  proof (cases r)
    case (Inl e)
    with l have "trace (u_rt (user_body env ?st)) = trace rt @ ListUsers limit None (Inl e) # []"
      by (simp add: user_body_failed) (simp add: user_init_def)
    then show ?thesis by blast
  next
    case (Inr resp)
    let ?s = "?st\<lparr>u_before := next_before resp,
                 hasMoreUsers := (length (data resp) = limit),
                 totalUsers := totalUsers ?st + length (data resp),
                 u_rt := \<lparr>world = w',
                          trace = trace (u_rt ?st)
                                  @ [ListUsers limit (u_before ?st) (Inr resp)]\<rparr>\<rparr>"
    from l Inr have b: "user_body env ?st = fold (user_step env) (data resp) ?s"
      by (simp add: user_body_fetched)
    from fold_user_step_events [where env = env and us = "data resp" and st = ?s]
    obtain evs where "trace (u_rt (fold (user_step env) (data resp) ?s)) = trace (u_rt ?s) @ evs"
      by blast
    then have "trace (u_rt (user_body env ?st)) = trace rt @ ListUsers limit None (Inr resp) # evs"
      unfolding b by (simp add: user_init_def)
    then show ?thesis by blast
  qed
qed

text \<open>
  C7. A failure to fetch a page of organizations or of users ends that phase at once and is
  not retried: the loop returns after that round with nothing changed but the abort flag
  and the failed request at the end of the trace, so no further page is requested and no
  further record of the phase is processed. Nothing is raised: after the organization phase
  the run goes on to the user phase, which starts by requesting the first page of users with
  the map built so far, and after the user phase it returns the final counters.
\<close>

theorem page_fetch_failure_aborts_phase:
  "(st = iterations k org_running (org_body env) (org_init rt)
    \<and> org_running st
    \<and> listOrganizations env limit (o_before st) (world (o_rt st)) = (Inl e, w')
    \<longrightarrow> (\<forall>n. Suc k \<le> n \<longrightarrow>
            org_loop n env rt =
              Some (st\<lparr>o_broke := True,
                       o_rt := \<lparr>world = w',
                                trace = trace (o_rt st)
                                        @ [ListOrganizations limit (o_before st) (Inl e)]\<rparr>\<rparr>)
            \<and> migrateOrganizations n env rt =
                Some (orgMap st,
                      \<lparr>world = w',
                       trace = trace (o_rt st)
                               @ [ListOrganizations limit (o_before st) (Inl e)]\<rparr>)
            \<and> (rt = \<lparr>world = w0, trace = []\<rparr> \<longrightarrow>
                 migrateFromWorkOS n env w0 =
                   user_loop n env (orgMap st)
                     \<lparr>world = w',
                      trace = trace (o_rt st)
                              @ [ListOrganizations limit (o_before st) (Inl e)]\<rparr>))
         \<and> (\<forall>n. n \<le> k \<longrightarrow> org_loop n env rt = None))
   \<and> (ust = iterations j user_running (user_body env) (user_init m urt)
    \<and> user_running ust
    \<and> listUsers env limit (u_before ust) (world (u_rt ust)) = (Inl ue, uw')
    \<longrightarrow> (\<forall>n. Suc j \<le> n \<longrightarrow>
            user_loop n env m urt =
              Some (ust\<lparr>u_broke := True,
                        u_rt := \<lparr>world = uw',
                                 trace = trace (u_rt ust)
                                         @ [ListUsers limit (u_before ust) (Inl ue)]\<rparr>\<rparr>)
            \<and> (migrateOrganizations n env \<lparr>world = w0, trace = []\<rparr> = Some (m, urt) \<longrightarrow>
                 migrateFromWorkOS n env w0 =
                   Some (ust\<lparr>u_broke := True,
                             u_rt := \<lparr>world = uw',
                                      trace = trace (u_rt ust)
                                              @ [ListUsers limit (u_before ust) (Inl ue)]\<rparr>\<rparr>)))
         \<and> (\<forall>n. n \<le> j \<longrightarrow> user_loop n env m urt = None))
   \<and> user_running (user_init m urt)
   \<and> (\<exists>r evs. trace (u_rt (user_body env (user_init m urt)))
                 = trace urt @ ListUsers limit None r # evs)"
proof (intro conjI impI)
  assume a: "st = iterations k org_running (org_body env) (org_init rt)
    \<and> org_running st
    \<and> listOrganizations env limit (o_before st) (world (o_rt st)) = (Inl e, w')"
  then have l: "listOrganizations env limit (o_before st) (world (o_rt st)) = (Inl e, w')"
    by blast
  from a org_loop_fetch_failed [of st k env rt e w']
  have f: "\<forall>n. Suc k \<le> n \<longrightarrow> org_loop n env rt = Some (org_body env st)"
    and g: "\<forall>n. n \<le> k \<longrightarrow> org_loop n env rt = None"
    by blast+
  show "\<forall>n. n \<le> k \<longrightarrow> org_loop n env rt = None" by (rule g)
  show "\<forall>n. Suc k \<le> n \<longrightarrow>
            org_loop n env rt =
              Some (st\<lparr>o_broke := True,
                       o_rt := \<lparr>world = w',
                                trace = trace (o_rt st)
                                        @ [ListOrganizations limit (o_before st) (Inl e)]\<rparr>\<rparr>)
            \<and> migrateOrganizations n env rt =
                Some (orgMap st,
                      \<lparr>world = w',
                       trace = trace (o_rt st)
                               @ [ListOrganizations limit (o_before st) (Inl e)]\<rparr>)
            \<and> (rt = \<lparr>world = w0, trace = []\<rparr> \<longrightarrow>
                 migrateFromWorkOS n env w0 =
                   user_loop n env (orgMap st)
                     \<lparr>world = w',
                      trace = trace (o_rt st)
                              @ [ListOrganizations limit (o_before st) (Inl e)]\<rparr>)"
  proof (intro allI impI)
    fix n
    assume "Suc k \<le> n"
    with f have o: "org_loop n env rt = Some (org_body env st)" by blast
    then show "org_loop n env rt =
              Some (st\<lparr>o_broke := True,
                       o_rt := \<lparr>world = w',
                                trace = trace (o_rt st)
                                        @ [ListOrganizations limit (o_before st) (Inl e)]\<rparr>\<rparr>)
            \<and> migrateOrganizations n env rt =
                Some (orgMap st,
                      \<lparr>world = w',
                       trace = trace (o_rt st)
                               @ [ListOrganizations limit (o_before st) (Inl e)]\<rparr>)
            \<and> (rt = \<lparr>world = w0, trace = []\<rparr> \<longrightarrow>
                 migrateFromWorkOS n env w0 =
                   user_loop n env (orgMap st)
                     \<lparr>world = w',
                      trace = trace (o_rt st)
                              @ [ListOrganizations limit (o_before st) (Inl e)]\<rparr>)"
      by (auto simp: org_body_failed [OF l] migrateOrganizations_def migrateFromWorkOS_def)
  qed
next
  assume a: "ust = iterations j user_running (user_body env) (user_init m urt)
    \<and> user_running ust
    \<and> listUsers env limit (u_before ust) (world (u_rt ust)) = (Inl ue, uw')"
  then have l: "listUsers env limit (u_before ust) (world (u_rt ust)) = (Inl ue, uw')"
    by blast
  from a user_loop_fetch_failed [of ust j env m urt ue uw']
  have f: "\<forall>n. Suc j \<le> n \<longrightarrow> user_loop n env m urt = Some (user_body env ust)"
    and g: "\<forall>n. n \<le> j \<longrightarrow> user_loop n env m urt = None"
    by blast+
  show "\<forall>n. n \<le> j \<longrightarrow> user_loop n env m urt = None" by (rule g)
  show "\<forall>n. Suc j \<le> n \<longrightarrow>
            user_loop n env m urt =
              Some (ust\<lparr>u_broke := True,
                        u_rt := \<lparr>world = uw',
                                 trace = trace (u_rt ust)
                                         @ [ListUsers limit (u_before ust) (Inl ue)]\<rparr>\<rparr>)
            \<and> (migrateOrganizations n env \<lparr>world = w0, trace = []\<rparr> = Some (m, urt) \<longrightarrow>
                 migrateFromWorkOS n env w0 =
                   Some (ust\<lparr>u_broke := True,
                             u_rt := \<lparr>world = uw',
                                      trace = trace (u_rt ust)
                                              @ [ListUsers limit (u_before ust) (Inl ue)]\<rparr>\<rparr>))"
  proof (intro allI impI conjI)
    fix n
    assume n: "Suc j \<le> n"
    with f have o: "user_loop n env m urt = Some (user_body env ust)" by blast
    then show u: "user_loop n env m urt =
              Some (ust\<lparr>u_broke := True,
                        u_rt := \<lparr>world = uw',
                                 trace = trace (u_rt ust)
                                         @ [ListUsers limit (u_before ust) (Inl ue)]\<rparr>\<rparr>)"
      by (simp add: user_body_failed [OF l])
    assume "migrateOrganizations n env \<lparr>world = w0, trace = []\<rparr> = Some (m, urt)"
    with u show "migrateFromWorkOS n env w0 =
                   Some (ust\<lparr>u_broke := True,
                             u_rt := \<lparr>world = uw',
                                      trace = trace (u_rt ust)
                                              @ [ListUsers limit (u_before ust) (Inl ue)]\<rparr>\<rparr>)"
      by (simp add: migrateFromWorkOS_def)
  qed
next
  show "user_running (user_init m urt)" by (simp add: user_init_def user_running_def)
  show "\<exists>r evs. trace (u_rt (user_body env (user_init m urt)))
                 = trace urt @ ListUsers limit None r # evs"
    by (rule user_phase_starts_with_fetch)
qed

lemma paged_env_down_calls:
  "listOrganizations paged_env_down lim None w =
     (Inr \<lparr>data = replicate 100 (demo_orgs ! 0),
           listMetadata = Some \<lparr>before = Some ''cursor_1'', after = None\<rparr>\<rparr>, Suc w)"
  "listOrganizations paged_env_down lim (Some c) w = (Inl (Rejected ''503''), Suc w)"
  "listUsers paged_env_down lim None w =
     (Inr \<lparr>data = replicate 100 (demo_users ! 1),
           listMetadata = Some \<lparr>before = Some ''cursor_1'', after = None\<rparr>\<rparr>, Suc w)"
  "listUsers paged_env_down lim (Some c) w = (Inl (Rejected ''503''), Suc w)"
  by (simp_all add: paged_env_down_def)

lemma paged_env_down_first_org_round:
  "org_running (org_body paged_env_down (org_init rt))"
  "o_before (org_body paged_env_down (org_init rt)) = Some ''cursor_1''"
  "org_body paged_env_down (org_init rt)
     = iterations 1 org_running (org_body paged_env_down) (org_init rt)"
proof -
  let ?o0 = "org_init rt"
  let ?page = "\<lparr>data = replicate 100 (demo_orgs ! 0),
           listMetadata = Some \<lparr>before = Some ''cursor_1'', after = None\<rparr>\<rparr>"
  have o0: "org_running ?o0" "o_before ?o0 = None" "\<not> o_broke ?o0"
    by (simp_all add: org_init_def org_running_def)
  have l: "listOrganizations paged_env_down limit (o_before ?o0) (world (o_rt ?o0))
              = (Inr ?page, Suc (world (o_rt ?o0)))"
    by (simp add: o0 paged_env_down_calls)
  show "org_running (org_body paged_env_down ?o0)"
    and "o_before (org_body paged_env_down ?o0) = Some ''cursor_1''"
    using org_body_fetched_facts(2,3,4) [OF l] o0
    by (simp_all add: org_running_def limit_def next_before_def)
  show "org_body paged_env_down ?o0
     = iterations 1 org_running (org_body paged_env_down) ?o0"
    using o0 by simp
qed

lemma paged_env_down_first_user_round:
  "user_running (user_body paged_env_down (user_init m rt))"
  "u_before (user_body paged_env_down (user_init m rt)) = Some ''cursor_1''"
  "user_body paged_env_down (user_init m rt)
     = iterations 1 user_running (user_body paged_env_down) (user_init m rt)"
proof -
  let ?u0 = "user_init m rt"
  let ?page = "\<lparr>data = replicate 100 (demo_users ! 1),
           listMetadata = Some \<lparr>before = Some ''cursor_1'', after = None\<rparr>\<rparr>"
  have u0: "user_running ?u0" "u_before ?u0 = None" "\<not> u_broke ?u0"
    by (simp_all add: user_init_def user_running_def)
  have l: "listUsers paged_env_down limit (u_before ?u0) (world (u_rt ?u0))
              = (Inr ?page, Suc (world (u_rt ?u0)))"
    by (simp add: u0 paged_env_down_calls)
  show "user_running (user_body paged_env_down ?u0)"
    and "u_before (user_body paged_env_down ?u0) = Some ''cursor_1''"
    using user_body_fetched_facts(2,3,4) [OF l] u0
    by (simp_all add: user_running_def limit_def next_before_def)
  show "user_body paged_env_down ?u0
     = iterations 1 user_running (user_body paged_env_down) ?u0"
    using u0 by simp
qed

theorem page_fetch_failure_aborts_phase_witness:
  "org_loop 1 paged_env_down \<lparr>world = 0, trace = []\<rparr> = None
   \<and> org_loop 2 paged_env_down \<lparr>world = 0, trace = []\<rparr> =
       Some ((org_body paged_env_down (org_init \<lparr>world = 0, trace = []\<rparr>))
               \<lparr>o_broke := True,
                o_rt := \<lparr>world = Suc (world (o_rt (org_body paged_env_down
                                                    (org_init \<lparr>world = 0, trace = []\<rparr>)))),
                         trace = trace (o_rt (org_body paged_env_down
                                               (org_init \<lparr>world = 0, trace = []\<rparr>)))
                                 @ [ListOrganizations 100 (Some ''cursor_1'')
                                      (Inl (Rejected ''503''))]\<rparr>\<rparr>)
   \<and> migrateOrganizations 2 paged_env_down \<lparr>world = 0, trace = []\<rparr> =
       Some (orgMap (org_body paged_env_down (org_init \<lparr>world = 0, trace = []\<rparr>)),
             \<lparr>world = Suc (world (o_rt (org_body paged_env_down
                                         (org_init \<lparr>world = 0, trace = []\<rparr>)))),
              trace = trace (o_rt (org_body paged_env_down (org_init \<lparr>world = 0, trace = []\<rparr>)))
                      @ [ListOrganizations 100 (Some ''cursor_1'') (Inl (Rejected ''503''))]\<rparr>)
   \<and> (\<exists>m urt. migrateOrganizations 2 paged_env_down \<lparr>world = 0, trace = []\<rparr> = Some (m, urt)
         \<and> migrateFromWorkOS 2 paged_env_down 0 = user_loop 2 paged_env_down m urt
         \<and> user_loop 1 paged_env_down m urt = None
         \<and> migrateFromWorkOS 2 paged_env_down 0 =
             Some ((user_body paged_env_down (user_init m urt))
                     \<lparr>u_broke := True,
                      u_rt := \<lparr>world = Suc (world (u_rt (user_body paged_env_down
                                                          (user_init m urt)))),
                               trace = trace (u_rt (user_body paged_env_down (user_init m urt)))
                                       @ [ListUsers 100 (Some ''cursor_1'')
                                            (Inl (Rejected ''503''))]\<rparr>\<rparr>))"
proof -
  let ?rt = "\<lparr>world = 0, trace = []\<rparr> :: nat rt"
  let ?o1 = "org_body paged_env_down (org_init ?rt)"
  let ?m = "orgMap ?o1"
  let ?urt = "\<lparr>world = Suc (world (o_rt ?o1)),
               trace = trace (o_rt ?o1)
                       @ [ListOrganizations 100 (Some ''cursor_1'') (Inl (Rejected ''503''))]\<rparr>"
  let ?u1 = "user_body paged_env_down (user_init ?m ?urt)"
  note o1 = paged_env_down_first_org_round [of ?rt]
  note u1 = paged_env_down_first_user_round [of ?m ?urt]
  have ol2: "listOrganizations paged_env_down limit (o_before ?o1) (world (o_rt ?o1))
              = (Inl (Rejected ''503''), Suc (world (o_rt ?o1)))"
    by (simp add: o1(1,2) paged_env_down_calls)
  have ul2: "listUsers paged_env_down limit (u_before ?u1) (world (u_rt ?u1))
              = (Inl (Rejected ''503''), Suc (world (u_rt ?u1)))"
    by (simp add: u1(1,2) paged_env_down_calls)
  note t = page_fetch_failure_aborts_phase [where env = paged_env_down
      and st = ?o1 and k = 1 and rt = ?rt and e = "Rejected ''503''"
      and w' = "Suc (world (o_rt ?o1))" and ?w0.0 = 0
      and ust = ?u1 and j = 1 and m = ?m and urt = ?urt and ue = "Rejected ''503''"
      and uw' = "Suc (world (u_rt ?u1))"]
  have oh: "?o1 = iterations 1 org_running (org_body paged_env_down) (org_init ?rt)
    \<and> org_running ?o1
    \<and> listOrganizations paged_env_down limit (o_before ?o1) (world (o_rt ?o1))
        = (Inl (Rejected ''503''), Suc (world (o_rt ?o1)))"
    using o1(3) o1(1) ol2 by (intro conjI)
  have uh: "?u1 = iterations 1 user_running (user_body paged_env_down) (user_init ?m ?urt)
    \<and> user_running ?u1
    \<and> listUsers paged_env_down limit (u_before ?u1) (world (u_rt ?u1))
        = (Inl (Rejected ''503''), Suc (world (u_rt ?u1)))"
    using u1(3) u1(1) ul2 by (intro conjI)
  note og = t [THEN conjunct1, THEN mp, OF oh]
  note ug = t [THEN conjunct2, THEN conjunct1, THEN mp, OF uh]
  from og [THEN conjunct1, THEN spec, of 2] have a:
    "org_loop 2 paged_env_down ?rt =
       Some (?o1\<lparr>o_broke := True, o_rt := ?urt\<rparr>)"
    and mo: "migrateOrganizations 2 paged_env_down ?rt = Some (?m, ?urt)"
    and b: "migrateFromWorkOS 2 paged_env_down 0 = user_loop 2 paged_env_down ?m ?urt"
    by (simp_all add: o1(1,2) limit_def)
  from og [THEN conjunct2, THEN spec, of 1] have c: "org_loop 1 paged_env_down ?rt = None"
    by simp
  from ug [THEN conjunct1, THEN spec, of 2] mo have d:
    "migrateFromWorkOS 2 paged_env_down 0 =
       Some (?u1\<lparr>u_broke := True,
                u_rt := \<lparr>world = Suc (world (u_rt ?u1)),
                         trace = trace (u_rt ?u1)
                                 @ [ListUsers 100 (Some ''cursor_1'')
                                      (Inl (Rejected ''503''))]\<rparr>\<rparr>)"
    by (simp add: u1(1,2) limit_def)
  from ug [THEN conjunct2, THEN spec, of 1] have e:
    "user_loop 1 paged_env_down ?m ?urt = None"
    by simp
  from mo b e d have "\<exists>m urt. migrateOrganizations 2 paged_env_down ?rt = Some (m, urt)
         \<and> migrateFromWorkOS 2 paged_env_down 0 = user_loop 2 paged_env_down m urt
         \<and> user_loop 1 paged_env_down m urt = None
         \<and> migrateFromWorkOS 2 paged_env_down 0 =
             Some ((user_body paged_env_down (user_init m urt))
                     \<lparr>u_broke := True,
                      u_rt := \<lparr>world = Suc (world (u_rt (user_body paged_env_down
                                                          (user_init m urt)))),
                               trace = trace (u_rt (user_body paged_env_down (user_init m urt)))
                                       @ [ListUsers 100 (Some ''cursor_1'')
                                            (Inl (Rejected ''503''))]\<rparr>\<rparr>)"
    by (intro exI [of _ ?m] exI [of _ ?urt] conjI)
  with a mo c show ?thesis by (intro conjI)
qed

subsection \<open>Identifiers and the organization map\<close>

lemma organization_payloads_append [simp]:
  "organization_payloads (a @ b) = organization_payloads a @ organization_payloads b"
  by (simp add: organization_payloads_def)

lemma organization_payloads_Nil [simp]: "organization_payloads [] = []"
  by (simp add: organization_payloads_def)

lemma organization_payloads_Cons [simp]:
  "organization_payloads (e # tr) = organization_payload e @ organization_payloads tr"
  by (simp add: organization_payloads_def)

lemma org_map_of_append: "org_map_of (a @ b) = fold org_map_write b (org_map_of a)"
  by (simp add: org_map_of_def)

lemma after_user_event_facts:
  assumes "after_user_event e"
  shows "forces_id e" and "organization_payload e = []" and "org_page e = []"
    and "org_map_write e m = m"
  using assms
  by (cases e; cases "payload (case e of Create req r \<Rightarrow> req)";
      cases "case e of Create req r \<Rightarrow> r"; simp)+

lemma after_user_events_facts:
  assumes "list_all after_user_event evs"
  shows "list_all forces_id evs" and "organization_payloads evs = []" and "org_pages evs = []"
    and "fold org_map_write evs m = m"
  using assms by (induction evs) (simp_all add: after_user_event_facts)

lemma user_request_facts:
  "model (user_request env u fs w) = ''user''"
  "forceAllowId (user_request env u fs w)"
  "\<exists>d. payload (user_request env u fs w) = UserData d
       \<and> duser_id d = user_id u \<and> duser_email d = email u"
  by (simp_all add: user_request_def)

lemma organization_request_facts:
  "model (organization_request env org w) = ''organization''"
  "forceAllowId (organization_request env org w)"
  "\<exists>d. payload (organization_request env org w) = OrganizationData d
       \<and> dorg_id d = org_id org \<and> dorg_name d = org_name org"
  by (simp_all add: organization_request_def)

lemma user_events_facts:
  assumes "user_events env u evs"
  shows "list_all forces_id evs" and "organization_payloads evs = []" and "org_pages evs = []"
    and "fold org_map_write evs m = m"
    and "set (map (\<lambda>d. (duser_id d, duser_email d)) (user_payloads evs))
           \<subseteq> {(user_id u, email u)}"
proof -
  from assms consider (failed) e where "evs = [ListAuthFactors (user_id u) (Inl e)]"
    | (fetched) resp w r rest where
        "evs = ListAuthFactors (user_id u) (Inr resp)
               # Create (user_request env u (data resp) w) r # rest"
        "list_all after_user_event rest"
    unfolding user_events_def by blast
  then have "list_all forces_id evs \<and> organization_payloads evs = [] \<and> org_pages evs = []
    \<and> fold org_map_write evs m = m
    \<and> set (map (\<lambda>d. (duser_id d, duser_email d)) (user_payloads evs))
           \<subseteq> {(user_id u, email u)}"
  proof cases
    case failed
    then show ?thesis by simp
  next
    case fetched
    from user_request_facts(3) [of env u "data resp" w] obtain d where
      d: "payload (user_request env u (data resp) w) = UserData d"
         "duser_id d = user_id u" "duser_email d = email u"
      by blast
    have w: "org_map_write (Create (user_request env u (data resp) w) r) m = m"
      using d(1) by (cases r) simp_all
    show ?thesis
      unfolding fetched(1)
      using d after_user_events_facts [OF fetched(2)] after_user_events_no_user [OF fetched(2)]
        user_request_facts(2) [of env u "data resp" w] w
      by simp
  qed
  then show "list_all forces_id evs" and "organization_payloads evs = []"
    and "org_pages evs = []" and "fold org_map_write evs m = m"
    and "set (map (\<lambda>d. (duser_id d, duser_email d)) (user_payloads evs))
           \<subseteq> {(user_id u, email u)}"
    by blast+
qed

lemma users_events_facts:
  assumes "users_events env us evs"
  shows "list_all forces_id evs" and "organization_payloads evs = []" and "org_pages evs = []"
    and "fold org_map_write evs m = m"
    and "set (map (\<lambda>d. (duser_id d, duser_email d)) (user_payloads evs))
           \<subseteq> set (map (\<lambda>u. (user_id u, email u)) us)"
proof -
  have "users_events env us evs \<Longrightarrow>
    list_all forces_id evs \<and> organization_payloads evs = [] \<and> org_pages evs = []
    \<and> fold org_map_write evs m = m
    \<and> set (map (\<lambda>d. (duser_id d, duser_email d)) (user_payloads evs))
           \<subseteq> set (map (\<lambda>u. (user_id u, email u)) us)"
  proof (induction us arbitrary: evs)
    case Nil
    then show ?case by simp
  next
    case (Cons u us)
    from Cons.prems obtain a b where
      evs: "evs = a @ b" and a: "user_events env u a" and b: "users_events env us b"
      by auto
    note fa = user_events_facts [OF a]
    note fb = Cons.IH [OF b]
    from fa fb show ?case unfolding evs by auto
  qed
  with assms show "list_all forces_id evs" and "organization_payloads evs = []"
    and "org_pages evs = []" and "fold org_map_write evs m = m"
    and "set (map (\<lambda>d. (duser_id d, duser_email d)) (user_payloads evs))
           \<subseteq> set (map (\<lambda>u. (user_id u, email u)) us)"
    by blast+
qed

lemma orgs_events_facts:
  assumes "orgs_events env orgs evs"
  shows "list_all forces_id evs" and "user_payloads evs = []" and "user_pages evs = []"
    and "map (\<lambda>d. (dorg_id d, dorg_name d)) (organization_payloads evs)
           = map (\<lambda>org. (org_id org, org_name org)) orgs"
proof -
  have "orgs_events env orgs evs \<Longrightarrow>
    list_all forces_id evs \<and> user_payloads evs = [] \<and> user_pages evs = []
    \<and> map (\<lambda>d. (dorg_id d, dorg_name d)) (organization_payloads evs)
           = map (\<lambda>org. (org_id org, org_name org)) orgs"
  proof (induction orgs arbitrary: evs)
    case Nil
    then show ?case by simp
  next
    case (Cons org orgs)
    from Cons.prems obtain w r b where
      evs: "evs = Create (organization_request env org w) r # b"
      and b: "orgs_events env orgs b"
      by auto
    from organization_request_facts(3) [of env org w] obtain d where
      d: "payload (organization_request env org w) = OrganizationData d"
         "dorg_id d = org_id org" "dorg_name d = org_name org"
      by blast
    from Cons.IH [OF b] d organization_request_facts(2) [of env org w]
    show ?case unfolding evs by simp
  qed
  with assms show "list_all forces_id evs" and "user_payloads evs = []"
    and "user_pages evs = []"
    and "map (\<lambda>d. (dorg_id d, dorg_name d)) (organization_payloads evs)
           = map (\<lambda>org. (org_id org, org_name org)) orgs"
    by blast+
qed

lemma ids_preserved_Nil: "ids_preserved []"
  by (simp add: ids_preserved_def)

lemma ids_preserved_org_page:
  assumes "ids_preserved tr" and "orgs_events env (data resp) evs"
  shows "ids_preserved (tr @ ListOrganizations lim c (Inr resp) # evs)"
  using assms(1) orgs_events_facts [OF assms(2)] orgs_events_no_page [OF assms(2)]
  by (simp add: ids_preserved_def)

lemma ids_preserved_org_fetch_failed:
  assumes "ids_preserved tr"
  shows "ids_preserved (tr @ [ListOrganizations lim c (Inl e)])"
  using assms by (simp add: ids_preserved_def)

lemma ids_preserved_user_page:
  assumes "ids_preserved tr" and "users_events env (data resp) evs"
  shows "ids_preserved (tr @ ListUsers lim c (Inr resp) # evs)"
  using assms(1) users_events_facts(1,2,3,5) [OF assms(2)] users_events_no_page [OF assms(2)]
  by (auto simp: ids_preserved_def)

lemma ids_preserved_user_fetch_failed:
  assumes "ids_preserved tr"
  shows "ids_preserved (tr @ [ListUsers lim c (Inl e)])"
  using assms by (simp add: ids_preserved_def)

lemma org_step_write:
  "\<exists>r. trace (o_rt (org_step env org st)) =
          trace (o_rt st) @ [Create (organization_request env org (world (o_rt st))) r]
       \<and> orgMap (org_step env org st) =
          org_map_write (Create (organization_request env org (world (o_rt st))) r) (orgMap st)"
proof -
  obtain r w' where
    a: "adapter_create env (organization_request env org (world (o_rt st))) (world (o_rt st))
          = (r, w')"
    by (cases "adapter_create env (organization_request env org (world (o_rt st)))
                 (world (o_rt st))")
  from organization_request_facts(3) [of env org "world (o_rt st)"] obtain d where
    d: "payload (organization_request env org (world (o_rt st))) = OrganizationData d"
       "dorg_id d = org_id org"
    by blast
  have "trace (o_rt (org_step env org st)) =
          trace (o_rt st) @ [Create (organization_request env org (world (o_rt st))) r]
       \<and> orgMap (org_step env org st) =
          org_map_write (Create (organization_request env org (world (o_rt st))) r) (orgMap st)"
    using a d by (cases r) (simp_all add: org_step_def adapter_call_def call_def Let_def)
  then show ?thesis by blast
qed

lemma fold_org_step_write:
  "\<exists>evs. trace (o_rt (fold (org_step env) orgs st)) = trace (o_rt st) @ evs
         \<and> orgs_events env orgs evs
         \<and> orgMap (fold (org_step env) orgs st) = fold org_map_write evs (orgMap st)"
proof (induction orgs arbitrary: st)
  case Nil
  then show ?case by simp
next
  case (Cons org orgs)
  from org_step_write [where env = env and org = org and st = st] obtain r where
    a: "trace (o_rt (org_step env org st)) =
          trace (o_rt st) @ [Create (organization_request env org (world (o_rt st))) r]"
       "orgMap (org_step env org st) =
          org_map_write (Create (organization_request env org (world (o_rt st))) r) (orgMap st)"
    by blast
  from Cons [of "org_step env org st"] obtain b where
    b: "trace (o_rt (fold (org_step env) orgs (org_step env org st))) =
          trace (o_rt (org_step env org st)) @ b"
       "orgs_events env orgs b"
       "orgMap (fold (org_step env) orgs (org_step env org st)) =
          fold org_map_write b (orgMap (org_step env org st))"
    by blast
  let ?evs = "Create (organization_request env org (world (o_rt st))) r # b"
  from a b have "trace (o_rt (fold (org_step env) (org # orgs) st)) = trace (o_rt st) @ ?evs"
    by simp
  moreover from b have "orgs_events env (org # orgs) ?evs" by auto
  moreover from a b have
    "orgMap (fold (org_step env) (org # orgs) st) = fold org_map_write ?evs (orgMap st)"
    by simp
  ultimately show ?case by blast
qed

lemma org_body_invariant:
  assumes "org_invariant st"
  shows "org_invariant (org_body env st)"
proof -
  obtain r w' where l: "listOrganizations env limit (o_before st) (world (o_rt st)) = (r, w')"
    by (cases "listOrganizations env limit (o_before st) (world (o_rt st))")
  show ?thesis
  proof (cases r)
    case (Inl e)
    with l assms show ?thesis
      by (simp add: org_body_failed org_invariant_def ids_preserved_org_fetch_failed
            org_map_of_append)
  next
    case (Inr resp)
    let ?s = "st\<lparr>o_before := next_before resp,
                 hasMoreOrgs := (length (data resp) = limit),
                 totalOrgs := totalOrgs st + length (data resp),
                 o_rt := \<lparr>world = w',
                          trace = trace (o_rt st)
                                  @ [ListOrganizations limit (o_before st) (Inr resp)]\<rparr>\<rparr>"
    from l Inr have b: "org_body env st = fold (org_step env) (data resp) ?s"
      by (simp add: org_body_fetched)
    from fold_org_step_write [where env = env and orgs = "data resp" and st = ?s]
    obtain evs where
      t: "trace (o_rt (fold (org_step env) (data resp) ?s)) = trace (o_rt ?s) @ evs"
      and ev: "orgs_events env (data resp) evs"
      and mp: "orgMap (fold (org_step env) (data resp) ?s) = fold org_map_write evs (orgMap ?s)"
      by blast
    have t': "trace (o_rt (org_body env st)) =
        trace (o_rt st) @ ListOrganizations limit (o_before st) (Inr resp) # evs"
      unfolding b t by simp
    have "ids_preserved (trace (o_rt (org_body env st)))"
      unfolding t' using assms ev by (simp add: org_invariant_def ids_preserved_org_page)
    moreover have "orgMap (org_body env st) = org_map_of (trace (o_rt (org_body env st)))"
      unfolding t' using assms mp unfolding b
      by (simp add: org_invariant_def org_map_of_append)
    ultimately show ?thesis by (simp add: org_invariant_def)
  qed
qed

lemma user_body_invariant:
  assumes "user_invariant st"
  shows "user_invariant (user_body env st)"
proof -
  obtain r w' where l: "listUsers env limit (u_before st) (world (u_rt st)) = (r, w')"
    by (cases "listUsers env limit (u_before st) (world (u_rt st))")
  show ?thesis
  proof (cases r)
    case (Inl e)
    with l assms show ?thesis
      by (simp add: user_body_failed user_invariant_def ids_preserved_user_fetch_failed
            org_map_of_append)
  next
    case (Inr resp)
    let ?s = "st\<lparr>u_before := next_before resp,
                 hasMoreUsers := (length (data resp) = limit),
                 totalUsers := totalUsers st + length (data resp),
                 u_rt := \<lparr>world = w',
                          trace = trace (u_rt st)
                                  @ [ListUsers limit (u_before st) (Inr resp)]\<rparr>\<rparr>"
    from l Inr have b: "user_body env st = fold (user_step env) (data resp) ?s"
      by (simp add: user_body_fetched)
    from fold_user_step_events [where env = env and us = "data resp" and st = ?s]
    obtain evs where
      t: "trace (u_rt (fold (user_step env) (data resp) ?s)) = trace (u_rt ?s) @ evs"
      and ev: "users_events env (data resp) evs"
      by blast
    have t': "trace (u_rt (user_body env st)) =
        trace (u_rt st) @ ListUsers limit (u_before st) (Inr resp) # evs"
      unfolding b t by simp
    have "ids_preserved (trace (u_rt (user_body env st)))"
      unfolding t' using assms ev by (simp add: user_invariant_def ids_preserved_user_page)
    moreover have "u_orgMap (user_body env st) = org_map_of (trace (u_rt (user_body env st)))"
      unfolding t' using assms users_events_facts(4) [OF ev]
      by (simp add: user_invariant_def org_map_of_append user_body_orgMap)
    ultimately show ?thesis by (simp add: user_invariant_def)
  qed
qed

lemma org_step_agree:
  assumes "agree_except_orgMap a b"
  shows "agree_except_orgMap (org_step env org a) (org_step env org b)"
  using assms
  by (cases "adapter_call env (organization_request env org) (o_rt b)")
     (auto simp: org_step_def agree_except_orgMap_def split: sum.splits)

lemma fold_org_step_agree:
  assumes "agree_except_orgMap a b"
  shows "agree_except_orgMap (fold (org_step env) orgs a) (fold (org_step env) orgs b)"
  using assms
proof (induction orgs arbitrary: a b)
  case Nil
  then show ?case by simp
next
  case (Cons org orgs)
  from Cons.prems have "agree_except_orgMap (org_step env org a) (org_step env org b)"
    by (rule org_step_agree)
  then show ?case using Cons.IH by simp
qed

lemma org_body_agree:
  assumes "agree_except_orgMap a b"
  shows "agree_except_orgMap (org_body env a) (org_body env b)"
proof -
  from assms have eq: "o_before a = o_before b" "o_rt a = o_rt b"
    by (simp_all add: agree_except_orgMap_def)
  obtain r w' where l: "listOrganizations env limit (o_before b) (world (o_rt b)) = (r, w')"
    by (cases "listOrganizations env limit (o_before b) (world (o_rt b))")
  show ?thesis
  proof (cases r)
    case (Inl e)
    with l eq assms show ?thesis
      by (simp add: org_body_def call_def agree_except_orgMap_def)
  next
    case (Inr resp)
    let ?upd = "\<lambda>st. st\<lparr>o_before := next_before resp,
                 hasMoreOrgs := (length (data resp) = limit),
                 totalOrgs := totalOrgs st + length (data resp),
                 o_rt := \<lparr>world = w',
                          trace = trace (o_rt b)
                                  @ [ListOrganizations limit (o_before b) (Inr resp)]\<rparr>\<rparr>"
    from l Inr eq have a: "org_body env a = fold (org_step env) (data resp) (?upd a)"
      by (simp add: org_body_def call_def)
    from l Inr have b: "org_body env b = fold (org_step env) (data resp) (?upd b)"
      by (simp add: org_body_def call_def)
    from assms have "agree_except_orgMap (?upd a) (?upd b)"
      by (simp add: agree_except_orgMap_def)
    then show ?thesis unfolding a b by (rule fold_org_step_agree)
  qed
qed

lemma org_rounds_agree:
  assumes "agree_except_orgMap a b"
  shows "agree_except_orgMap (iterations k org_running (org_body env) a)
           (iterations k org_running (org_body env) b)"
  using assms
proof (induction k arbitrary: a b)
  case 0
  then show ?case by simp
next
  case (Suc k)
  from Suc.prems have r: "org_running a = org_running b"
    by (simp add: agree_except_orgMap_def org_running_def)
  show ?case
  proof (cases "org_running b")
    case True
    from Suc.prems have "agree_except_orgMap (org_body env a) (org_body env b)"
      by (rule org_body_agree)
    then show ?thesis using Suc.IH r True by simp
  next
    case False
    with r Suc.prems show ?thesis by simp
  qed
qed

lemma org_init_invariant: "org_invariant (org_init \<lparr>world = w, trace = []\<rparr>)"
  by (simp add: org_invariant_def org_init_def ids_preserved_Nil org_map_of_def)

lemma org_rounds_invariant:
  "org_invariant (iterations k org_running (org_body env) (org_init \<lparr>world = w, trace = []\<rparr>))"
  by (rule iterations_invariant) (simp_all add: org_init_invariant org_body_invariant)

lemma migrateOrganizations_invariant:
  assumes "migrateOrganizations n env \<lparr>world = w, trace = []\<rparr> = Some (m, rt1)"
  shows "ids_preserved (trace rt1)" and "m = org_map_of (trace rt1)"
proof -
  from assms obtain st where
    st: "org_loop n env \<lparr>world = w, trace = []\<rparr> = Some st" "m = orgMap st" "rt1 = o_rt st"
    by (auto simp: migrateOrganizations_def split: option.splits)
  from st(1) have "org_invariant st"
    unfolding org_loop_def
    by (rule while_fuel_invariant) (simp_all add: org_init_invariant org_body_invariant)
  with st(2,3) show "ids_preserved (trace rt1)" and "m = org_map_of (trace rt1)"
    by (simp_all add: org_invariant_def)
qed

lemma user_init_invariant:
  assumes "ids_preserved (trace rt1)" and "m = org_map_of (trace rt1)"
  shows "user_invariant (user_init m rt1)"
  using assms by (simp add: user_invariant_def user_init_def)

text \<open>
  C9. Every organization record and every user record requested from the adapter carries
  the identifier of its source record and \<^verbatim>\<open>forceAllowId: true\<close>: at the end of every round of
  either loop, and at the end of the run, the organization records requested carry the ids
  of the organizations fetched, in order, and every user record requested carries the id of
  a user fetched. The map of organization ids is written only in the organization phase,
  one entry for each organization record created, and that phase never reads it (its
  course is the same whatever the map holds); the user phase leaves the map as it was
  returned.
\<close>

theorem source_ids_are_kept:
  "forceAllowId (organization_request env org w)
   \<and> (\<exists>d. payload (organization_request env org w) = OrganizationData d
          \<and> dorg_id d = org_id org)
   \<and> forceAllowId (user_request env u fs w)
   \<and> (\<exists>d. payload (user_request env u fs w) = UserData d \<and> duser_id d = user_id u)
   \<and> ids_preserved
        (trace (o_rt (iterations k org_running (org_body env)
                        (org_init \<lparr>world = w0, trace = []\<rparr>))))
   \<and> orgMap (iterations k org_running (org_body env) (org_init \<lparr>world = w0, trace = []\<rparr>))
       = org_map_of (trace (o_rt (iterations k org_running (org_body env)
                                    (org_init \<lparr>world = w0, trace = []\<rparr>))))
   \<and> agree_except_orgMap
        (iterations k org_running (org_body env) (st\<lparr>orgMap := m'\<rparr>))
        (iterations k org_running (org_body env) st)
   \<and> (migrateOrganizations n env \<lparr>world = w0, trace = []\<rparr> = Some (m, rt1) \<longrightarrow>
        m = org_map_of (trace rt1)
        \<and> ids_preserved
            (trace (u_rt (iterations j user_running (user_body env) (user_init m rt1))))
        \<and> u_orgMap (iterations j user_running (user_body env) (user_init m rt1)) = m
        \<and> org_map_of (trace (u_rt (iterations j user_running (user_body env)
                                      (user_init m rt1)))) = m)
   \<and> (migrateFromWorkOS n env w0 = Some r \<longrightarrow>
        ids_preserved (trace (u_rt r))
        \<and> u_orgMap r = org_map_of (trace (u_rt r))
        \<and> (\<exists>rt1. migrateOrganizations n env \<lparr>world = w0, trace = []\<rparr>
                    = Some (u_orgMap r, rt1)))"
proof -
  have a: "forceAllowId (organization_request env org w)
   \<and> (\<exists>d. payload (organization_request env org w) = OrganizationData d
          \<and> dorg_id d = org_id org)
   \<and> forceAllowId (user_request env u fs w)
   \<and> (\<exists>d. payload (user_request env u fs w) = UserData d \<and> duser_id d = user_id u)"
    by (simp add: organization_request_def user_request_def)
  have b: "ids_preserved
        (trace (o_rt (iterations k org_running (org_body env)
                        (org_init \<lparr>world = w0, trace = []\<rparr>))))
   \<and> orgMap (iterations k org_running (org_body env) (org_init \<lparr>world = w0, trace = []\<rparr>))
       = org_map_of (trace (o_rt (iterations k org_running (org_body env)
                                    (org_init \<lparr>world = w0, trace = []\<rparr>))))"
    using org_rounds_invariant [where env = env and k = k and w = w0]
    by (simp add: org_invariant_def)
  have c: "agree_except_orgMap
        (iterations k org_running (org_body env) (st\<lparr>orgMap := m'\<rparr>))
        (iterations k org_running (org_body env) st)"
    by (rule org_rounds_agree) (simp add: agree_except_orgMap_def)
  have d: "m = org_map_of (trace rt1)
        \<and> ids_preserved
            (trace (u_rt (iterations j user_running (user_body env) (user_init m rt1))))
        \<and> u_orgMap (iterations j user_running (user_body env) (user_init m rt1)) = m
        \<and> org_map_of (trace (u_rt (iterations j user_running (user_body env)
                                      (user_init m rt1)))) = m"
    if mo: "migrateOrganizations n env \<lparr>world = w0, trace = []\<rparr> = Some (m, rt1)"
  proof -
    note i = migrateOrganizations_invariant [OF mo]
    have "user_invariant (iterations j user_running (user_body env) (user_init m rt1))"
      by (rule iterations_invariant)
         (simp_all add: user_init_invariant [OF i] user_body_invariant)
    moreover have "u_orgMap (iterations j user_running (user_body env) (user_init m rt1)) = m"
      by (simp add: user_rounds_orgMap user_init_def)
    ultimately show ?thesis using i(2) by (simp add: user_invariant_def)
  qed
  have e: "ids_preserved (trace (u_rt r))
        \<and> u_orgMap r = org_map_of (trace (u_rt r))
        \<and> (\<exists>rt1. migrateOrganizations n env \<lparr>world = w0, trace = []\<rparr>
                    = Some (u_orgMap r, rt1))"
    if run: "migrateFromWorkOS n env w0 = Some r"
  proof -
    from run obtain m rt1 where
      mo: "migrateOrganizations n env \<lparr>world = w0, trace = []\<rparr> = Some (m, rt1)"
      and ul: "user_loop n env m rt1 = Some r"
      by (auto simp: migrateFromWorkOS_def split: option.splits)
    note i = migrateOrganizations_invariant [OF mo]
    from ul have "user_invariant r \<and> u_orgMap r = m"
      unfolding user_loop_def
      by (rule while_fuel_invariant)
         (simp_all add: user_init_invariant [OF i] user_body_invariant user_body_orgMap,
          simp add: user_init_def)
    with mo show ?thesis by (auto simp: user_invariant_def)
  qed
  from a b c d e show ?thesis by blast
qed

theorem source_ids_are_kept_witness:
  "\<exists>r rt1. migrateFromWorkOS 1 demo_env 0 = Some r
     \<and> migrateOrganizations 1 demo_env \<lparr>world = 0, trace = []\<rparr> = Some (u_orgMap r, rt1)
     \<and> ids_preserved (trace (u_rt r))
     \<and> u_orgMap r = org_map_of (trace (u_rt r))
     \<and> map dorg_id (organization_payloads (trace (u_rt r))) = [''org_1'', ''org_2'']
     \<and> map duser_id (user_payloads (trace (u_rt r))) = [''user_1'', ''user_2'']
     \<and> u_orgMap r ''org_1'' = Some ''org_1''
     \<and> u_orgMap r = org_map_of (trace rt1)
     \<and> ids_preserved
          (trace (u_rt (iterations 1 user_running (user_body demo_env)
                          (user_init (u_orgMap r) rt1))))
     \<and> u_orgMap (iterations 1 user_running (user_body demo_env) (user_init (u_orgMap r) rt1))
         = u_orgMap r"
proof -
  have v: "map_option (\<lambda>r. (map dorg_id (organization_payloads (trace (u_rt r))),
                            map duser_id (user_payloads (trace (u_rt r))),
                            u_orgMap r ''org_1''))
             (migrateFromWorkOS 1 demo_env 0)
           = Some ([''org_1'', ''org_2''], [''user_1'', ''user_2''], Some ''org_1'')"
    by code_simp
  then obtain r where r: "migrateFromWorkOS 1 demo_env 0 = Some r"
    by (cases "migrateFromWorkOS 1 demo_env 0") simp_all
  from source_ids_are_kept [where env = demo_env and n = 1 and ?w0.0 = 0 and r = r] r
  obtain rt1 where
    a: "ids_preserved (trace (u_rt r))" "u_orgMap r = org_map_of (trace (u_rt r))"
    and mo: "migrateOrganizations 1 demo_env \<lparr>world = 0, trace = []\<rparr> = Some (u_orgMap r, rt1)"
    by blast
  from source_ids_are_kept [where env = demo_env and n = 1 and ?w0.0 = 0
      and m = "u_orgMap r" and ?rt1.0 = rt1 and j = 1] mo
  have b: "u_orgMap r = org_map_of (trace rt1)"
    "ids_preserved
          (trace (u_rt (iterations 1 user_running (user_body demo_env)
                          (user_init (u_orgMap r) rt1))))"
    "u_orgMap (iterations 1 user_running (user_body demo_env) (user_init (u_orgMap r) rt1))
         = u_orgMap r"
    by blast+
  from v r a mo b show ?thesis by auto
qed

subsection \<open>Organization memberships\<close>

lemma members_created_append [simp]:
  "members_created (a @ b) = members_created a @ members_created b"
  by (simp add: members_created_def)

lemma members_created_Nil [simp]: "members_created [] = []"
  by (simp add: members_created_def)

lemma members_created_Cons [simp]:
  "members_created (e # tr) = member_created e @ members_created tr"
  by (simp add: members_created_def)

lemma members_due_Nil [simp]: "members_due c om [] = []"
  by (simp add: members_due_def)

lemma members_due_Cons [simp]: "members_due c om (m # ms) = member_due c om m @ members_due c om ms"
  by (simp add: members_due_def)






lemma organization_memberships_not_listed:
  assumes "listOrganizationMemberships env (user_id u) (world rt) = (r, w1)"
    and "case r of Inl e \<Rightarrow> True | Inr resp \<Rightarrow> memberships resp = None"
  shows "members_created (trace (snd (organization_memberships env om u c rt))) =
           members_created (trace rt)"
  using assms
  by (cases r)
     (simp_all add: organization_memberships_def try_catch_def bind_def call_def return_def)

text \<open>A membership without a role object: the lookup is made, then the access throws.\<close>

lemma add_membership_without_role:
  assumes "om (organizationId m) = Some orgId" and "orgId \<noteq> []" and "role m = None"
    and "getOrganization env (organizationId m) (world rt) = (Inr org, w1)"
  shows "add_membership env om c m rt =
           (Inl TypeError,
            \<lparr>world = w1, trace = trace rt @ [GetOrganization (organizationId m) (Inr org)]\<rparr>)"
  using assms by (simp add: add_membership_def bind_def call_def throw_def)




end
